theory Spec2Isabelle
  imports
    Main
    "HOL-Library.Char_ord"
    "HOL-Library.List_Lexorder"
    "HOL-Library.Product_Lexorder"
    "HOL-Library.AList"
begin

section \<open>Python strings\<close>

text \<open>
  A Python \<^verbatim>\<open>str\<close> is modelled as a \<^typ>\<open>string\<close> in which every \<^typ>\<open>char\<close> stands for one
  code point below 256, so that \<^verbatim>\<open>len\<close> is \<^const>\<open>length\<close> and the comparison of two
  strings is the lexicographic order on code points.
\<close>

definition lower_char :: "char \<Rightarrow> char" where
  "lower_char c =
     (let n = (of_char c :: nat)
      in if (65 \<le> n \<and> n \<le> 90) \<or> (192 \<le> n \<and> n \<le> 214) \<or> (216 \<le> n \<and> n \<le> 222)
         then char_of (n + 32) else c)"

definition lower :: "string \<Rightarrow> string" where
  "lower s = map lower_char s"

fun str_in :: "string \<Rightarrow> string \<Rightarrow> bool" where
  "str_in p [] = (p = [])"
| "str_in p (c # cs) = (take (length p) (c # cs) = p \<or> str_in p cs)"

definition startswith :: "string \<Rightarrow> string \<Rightarrow> bool" where
  "startswith s p = (take (length p) s = p)"

definition isspace :: "char \<Rightarrow> bool" where
  "isspace c =
     (let n = (of_char c :: nat)
      in (9 \<le> n \<and> n \<le> 13) \<or> (28 \<le> n \<and> n \<le> 32) \<or> n = 133 \<or> n = 160)"

definition strip :: "string \<Rightarrow> string" where
  "strip s = rev (dropWhile isspace (rev (dropWhile isspace s)))"

fun join :: "string \<Rightarrow> string list \<Rightarrow> string" where
  "join sep [] = []"
| "join sep [x] = x"
| "join sep (x # y # ys) = x @ sep @ join sep (y # ys)"

section \<open>Python values and dictionaries\<close>

text \<open>
  A \<^verbatim>\<open>dict\<close> is an association list in insertion order whose keys are pairwise
  distinct. The values a transcript object can hold are strings and, one level down,
  dictionaries again.
\<close>

datatype pyval = PStr string | PDict "(string \<times> pyval) list"

type_synonym pydict = "(string \<times> pyval) list"

text \<open>
  Exceptions are values. \<open>ValueError\<close> stands for every instance of \<^verbatim>\<open>ValueError\<close> or of a
  subclass of it, \<open>OtherError\<close> for an exception of any class not listed.
\<close>

datatype py_exn =
    ValueError string
  | AttributeError string
  | TypeError string
  | KeyError string
  | OtherError string

definition keys :: "('k \<times> 'v) list \<Rightarrow> 'k list" where
  "keys d = map fst d"

definition no_attribute :: "string \<Rightarrow> string \<Rightarrow> py_exn" where
  "no_attribute cls attr =
     AttributeError ([CHR 0x27] @ cls @ [CHR 0x27] @ '' object has no attribute '' @
                     [CHR 0x27] @ attr @ [CHR 0x27])"

definition getitem :: "(string \<times> 'v) list \<Rightarrow> string \<Rightarrow> py_exn + 'v" where
  "getitem d k = (case map_of d k of None \<Rightarrow> Inl (KeyError k) | Some v \<Rightarrow> Inr v)"

text \<open>
  \<^verbatim>\<open>str(v)\<close>, as an f-string renders a value: a string is itself, a dictionary is
  printed by \<^verbatim>\<open>repr\<close>.
\<close>

definition printable :: "char \<Rightarrow> bool" where
  "printable c = (let n = (of_char c :: nat) in (32 \<le> n \<and> n < 127) \<or> (161 \<le> n \<and> n \<noteq> 173))"

definition hex2 :: "char \<Rightarrow> string" where
  "hex2 c = (let n = (of_char c :: nat)
             in [''0123456789abcdef'' ! (n div 16), ''0123456789abcdef'' ! (n mod 16)])"

definition repr_char :: "char \<Rightarrow> char \<Rightarrow> string" where
  "repr_char q c =
     (if c = q \<or> c = CHR 0x5C then [CHR 0x5C, c]
      else if c = CHR 0x09 then [CHR 0x5C, CHR ''t'']
      else if c = CHR 0x0A then [CHR 0x5C, CHR ''n'']
      else if c = CHR 0x0D then [CHR 0x5C, CHR ''r'']
      else if \<not> printable c then [CHR 0x5C, CHR ''x''] @ hex2 c
      else [c])"

definition repr_str :: "string \<Rightarrow> string" where
  "repr_str s =
     (let q = (if CHR 0x27 \<in> set s \<and> CHR 0x22 \<notin> set s then CHR 0x22 else CHR 0x27)
      in [q] @ concat (map (repr_char q) s) @ [q])"

fun py_repr :: "pyval \<Rightarrow> string" where
  "py_repr (PStr s) = repr_str s"
| "py_repr (PDict d) =
     ''{'' @ join '', '' (map (\<lambda>kv. repr_str (fst kv) @ '': '' @ py_repr (snd kv)) d) @ ''}''"

fun py_str :: "pyval \<Rightarrow> string" where
  "py_str (PStr s) = s"
| "py_str (PDict d) = py_repr (PDict d)"

section \<open>pipeline/utils.py: format_transcript\<close>

text \<open>
  Lines 10-11 and 35-36: \<^verbatim>\<open>if "transcript" in transcript_obj: transcript_obj =
  transcript_obj["transcript"]\<close>. The test is on the presence of the key alone.
\<close>

definition unwrapped :: "pydict \<Rightarrow> pyval" where
  "unwrapped transcript_obj =
     (case map_of transcript_obj ''transcript'' of
        Some inner \<Rightarrow> inner
      | None \<Rightarrow> PDict transcript_obj)"

definition sort_key_fn :: "string \<Rightarrow> nat \<times> string" where
  "sort_key_fn k =
     (if str_in ''interviewer'' (lower k) then (0, k)
      else if str_in ''candidate'' (lower k) then (1, k)
      else (2, k))"

definition role :: "string \<Rightarrow> string" where
  "role key = (if str_in ''interviewer'' (lower key) then ''Interviewer'' else ''Candidate'')"

fun render_lines :: "pydict \<Rightarrow> string list \<Rightarrow> py_exn + string list" where
  "render_lines d [] = Inr []"
| "render_lines d (key # rest) =
     (case getitem d key of
        Inl e \<Rightarrow> Inl e
      | Inr v \<Rightarrow>
          (case render_lines d rest of
             Inl e \<Rightarrow> Inl e
           | Inr lines \<Rightarrow> Inr ((role key @ '': '' @ py_str v) # lines)))"

definition format_transcript :: "pydict \<Rightarrow> py_exn + string" where
  "format_transcript transcript_obj =
     (case unwrapped transcript_obj of
        PStr s \<Rightarrow> Inl (no_attribute ''str'' ''keys'')
      | PDict d \<Rightarrow>
          (let sorted_keys = sort_key sort_key_fn (keys d)
           in case render_lines d sorted_keys of
                Inl e \<Rightarrow> Inl e
              | Inr lines \<Rightarrow> Inr (join [CHR 0x0A, CHR 0x0A] lines)))"

section \<open>pipeline/utils.py: validate_transcript\<close>

definition blank :: "string \<Rightarrow> bool" where
  "blank v = (v = [] \<or> strip v = [])"

fun check_entries :: "pydict \<Rightarrow> py_exn + bool \<times> string option" where
  "check_entries [] = Inr (True, None)"
| "check_entries ((key, PStr v) # rest) =
     (if blank v then Inr (False, Some (''Entry '' @ [CHR 0x27] @ key @ [CHR 0x27] @ '' is empty''))
      else check_entries rest)"
| "check_entries ((key, PDict v) # rest) =
     (if v = [] then Inr (False, Some (''Entry '' @ [CHR 0x27] @ key @ [CHR 0x27] @ '' is empty''))
      else Inl (no_attribute ''dict'' ''strip''))"

definition validate_transcript :: "pydict \<Rightarrow> py_exn + bool \<times> string option" where
  "validate_transcript transcript_obj =
     (case unwrapped transcript_obj of
        PStr s \<Rightarrow>
          (if s = [] then Inr (False, Some ''Transcript cannot be empty'')
           else if length s < 2 then Inr (False, Some ''Transcript must have at least 2 exchanges'')
           else Inl (no_attribute ''str'' ''keys''))
      | PDict d \<Rightarrow>
          (if d = [] then Inr (False, Some ''Transcript cannot be empty'')
           else if length d < 2 then Inr (False, Some ''Transcript must have at least 2 exchanges'')
           else
             (let has_interviewer = list_ex (\<lambda>k. str_in ''interviewer'' (lower k)) (keys d);
                  has_candidate = list_ex (\<lambda>k. str_in ''candidate'' (lower k)) (keys d)
              in if \<not> has_interviewer
                 then Inr (False, Some ''Transcript must include interviewer questions'')
                 else if \<not> has_candidate
                 then Inr (False, Some ''Transcript must include candidate responses'')
                 else check_entries d)))"

section \<open>pipeline/models.py\<close>

datatype sentiment = positive | negative | neutral

record PerformanceSnippet =
  snippet_topic :: string
  quote :: string
  assessment :: string
  snippet_type :: sentiment

record AnalysisReport =
  snippets :: "PerformanceSnippet list"

record CandidateSummary =
  headline :: string
  overall_impression :: string

record StrengthInsight =
  strength_skill :: string
  strength_evidence :: string

datatype priority_level = High | Medium | Low

record WeaknessInsight =
  weakness_skill :: string
  weakness_evidence :: string
  priority :: priority_level

record Insights =
  strengths :: "StrengthInsight list"
  weaknesses :: "WeaknessInsight list"

record RoadmapStep =
  timespan :: string
  focus :: string
  activities :: "string list"

record RecommendedResource =
  topic :: string
  link :: string
  reason :: string

record DevelopmentPlan =
  priority_topics :: "string list"
  roadmap_2_weeks :: "RoadmapStep list"
  recommended_resources :: "RecommendedResource list"

record FinalReport =
  candidate_summary :: CandidateSummary
  insights :: Insights
  development_plan :: DevelopmentPlan

section \<open>pipeline/utils.py: validate_report_quality\<close>

definition check_resource :: "string list \<Rightarrow> RecommendedResource \<Rightarrow> string list" where
  "check_resource issues resource =
     (if link resource = [] \<or> strip (link resource) = []
      then issues @ [''Resource '' @ [CHR 0x27] @ topic resource @ [CHR 0x27] @ '' has empty link'']
      else if \<not> (startswith (link resource) ''http://'' \<or> startswith (link resource) ''https://'')
      then issues @ [''Resource '' @ [CHR 0x27] @ topic resource @ [CHR 0x27] @
                     '' has invalid link format'']
      else issues)"

definition validate_report_quality :: "FinalReport \<Rightarrow> bool \<times> string list" where
  "validate_report_quality report =
     (let issues = [];
          issues = (if length (headline (candidate_summary report)) < 20
                    then issues @ [''Headline is too short/generic''] else issues);
          issues = (if length (overall_impression (candidate_summary report)) < 50
                    then issues @ [''Overall impression lacks detail''] else issues);
          issues = (if length (strengths (insights report)) = 0
                    then issues @ [''No strengths identified''] else issues);
          issues = (if length (weaknesses (insights report)) = 0
                    then issues @ [''No weaknesses identified''] else issues);
          issues = (if length (priority_topics (development_plan report)) = 0
                    then issues @ [''No priority topics defined''] else issues);
          issues = (if length (roadmap_2_weeks (development_plan report)) < 2
                    then issues @ [''2-week roadmap insufficiently detailed''] else issues);
          issues = (if length (recommended_resources (development_plan report)) = 0
                    then issues @ [''No learning resources provided''] else issues);
          issues = foldl check_resource issues (recommended_resources (development_plan report))
      in (length issues = 0, issues))"

section \<open>pipeline/pipeline.py: the generation backend and the log\<close>

text \<open>
  The two chains are external. A chain is given by its answer to \<^verbatim>\<open>chain.invoke(input_data)\<close>
  as a function of the calls made to the backend so far; every call is recorded. The
  input of the Analyst chain is the dictionary of the formatted transcript, that of the
  Synthesis chain the dictionary of the serialized analysis report, for which the model
  passes the report itself. The log holds one record per \<^verbatim>\<open>logger\<close> call, with the values
  the message is formatted from.
\<close>

datatype chain_name = AnalystChain | SynthesisChain

datatype input_data = TranscriptInput string | AnalysisReportInput AnalysisReport

type_synonym call = "chain_name \<times> input_data"

record 'o chain =
  chain_name :: chain_name
  respond :: "call list \<Rightarrow> input_data \<Rightarrow> py_exn + 'o"

datatype level = INFO | WARNING | ERROR

datatype log_msg =
    Banner
  | StartingPipeline
  | ValidatingTranscript
  | ValidationFailed string
  | TranscriptValid
  | TranscriptFormatted nat
  | CacheHit
  | CacheMiss
  | RunningAnalyst
  | AnalysisComplete nat
  | RunningSynthesis
  | SynthesisComplete
  | ValidatingQuality
  | QualityIssuesDetected
  | QualityIssue string
  | QualityValidated
  | ResultCached
  | PipelineCompleted
  | Attempt string int int
  | Success string
  | AttemptFailed string int py_exn
  | AllAttemptsFailed string
  | Retrying string
  | CacheCleared

record world =
  calls :: "call list"
  log :: "(level \<times> log_msg) list"

definition logger :: "level \<Rightarrow> log_msg \<Rightarrow> world \<Rightarrow> world" where
  "logger lvl msg w = w\<lparr>log := log w @ [(lvl, msg)]\<rparr>"

definition invoke :: "'o chain \<Rightarrow> input_data \<Rightarrow> world \<Rightarrow> (py_exn + 'o) \<times> world" where
  "invoke ch inp w =
     (respond ch (calls w) inp, w\<lparr>calls := calls w @ [(chain_name ch, inp)]\<rparr>)"

section \<open>hashlib: the MD5 digest of a string\<close>

text \<open>
  \<^verbatim>\<open>hashlib.md5(s.encode()).hexdigest()\<close> is the MD5 digest (RFC 1321) of the UTF-8 encoding
  of \<open>s\<close>, written as 32 lowercase hexadecimal digits.
\<close>

unbundle bit_operations_syntax

text \<open>Words of 32 bits are integers in \<open>[0, 2^32)\<close>: addition modulo \<open>2^32\<close>, complement and
  rotation to the left.\<close>

definition add32 :: "int \<Rightarrow> int \<Rightarrow> int" where
  "add32 x y = (x + y) mod 4294967296"

definition not32 :: "int \<Rightarrow> int" where
  "not32 x = 4294967295 - x"

definition rotl32 :: "int \<Rightarrow> nat \<Rightarrow> int" where
  "rotl32 x s = (x * 2 ^ s) mod 4294967296 + x div 2 ^ (32 - s)"

text \<open>The sine table and the shift amounts of RFC 1321.\<close>

definition md5_K :: "int list" where
  "md5_K =
    [0xd76aa478, 0xe8c7b756, 0x242070db, 0xc1bdceee, 0xf57c0faf, 0x4787c62a, 0xa8304613, 0xfd469501,
     0x698098d8, 0x8b44f7af, 0xffff5bb1, 0x895cd7be, 0x6b901122, 0xfd987193, 0xa679438e, 0x49b40821,
     0xf61e2562, 0xc040b340, 0x265e5a51, 0xe9b6c7aa, 0xd62f105d, 0x02441453, 0xd8a1e681, 0xe7d3fbc8,
     0x21e1cde6, 0xc33707d6, 0xf4d50d87, 0x455a14ed, 0xa9e3e905, 0xfcefa3f8, 0x676f02d9, 0x8d2a4c8a,
     0xfffa3942, 0x8771f681, 0x6d9d6122, 0xfde5380c, 0xa4beea44, 0x4bdecfa9, 0xf6bb4b60, 0xbebfbc70,
     0x289b7ec6, 0xeaa127fa, 0xd4ef3085, 0x04881d05, 0xd9d4d039, 0xe6db99e5, 0x1fa27cf8, 0xc4ac5665,
     0xf4292244, 0x432aff97, 0xab9423a7, 0xfc93a039, 0x655b59c3, 0x8f0ccc92, 0xffeff47d, 0x85845dd1,
     0x6fa87e4f, 0xfe2ce6e0, 0xa3014314, 0x4e0811a1, 0xf7537e82, 0xbd3af235, 0x2ad7d2bb, 0xeb86d391]"

definition md5_S :: "nat list" where
  "md5_S =
    [7, 12, 17, 22, 7, 12, 17, 22, 7, 12, 17, 22, 7, 12, 17, 22,
     5, 9, 14, 20, 5, 9, 14, 20, 5, 9, 14, 20, 5, 9, 14, 20,
     4, 11, 16, 23, 4, 11, 16, 23, 4, 11, 16, 23, 4, 11, 16, 23,
     6, 10, 15, 21, 6, 10, 15, 21, 6, 10, 15, 21, 6, 10, 15, 21]"

text \<open>The auxiliary function and the message index of operation \<open>i\<close> of the 64.\<close>

definition md5_F :: "nat \<Rightarrow> int \<Rightarrow> int \<Rightarrow> int \<Rightarrow> int" where
  "md5_F i b c d =
     (if i < 16 then (b AND c) OR (not32 b AND d)
      else if i < 32 then (d AND b) OR (not32 d AND c)
      else if i < 48 then b XOR c XOR d
      else c XOR (b OR not32 d))"

definition md5_g :: "nat \<Rightarrow> nat" where
  "md5_g i =
     (if i < 16 then i
      else if i < 32 then (5 * i + 1) mod 16
      else if i < 48 then (3 * i + 5) mod 16
      else (7 * i) mod 16)"

text \<open>One operation on the state \<open>(a, b, c, d)\<close>, over the 16 words \<open>m\<close> of a block.\<close>

fun md5_round :: "int list \<Rightarrow> int \<times> int \<times> int \<times> int \<Rightarrow> nat \<Rightarrow> int \<times> int \<times> int \<times> int" where
  "md5_round m (a, b, c, d) i =
     (d, add32 b (rotl32 (add32 (add32 (add32 (md5_F i b c d) a) (md5_K ! i)) (m ! md5_g i))
                    (md5_S ! i)), b, c)"

fun add_state :: "int \<times> int \<times> int \<times> int \<Rightarrow> int \<times> int \<times> int \<times> int \<Rightarrow> int \<times> int \<times> int \<times> int" where
  "add_state (a, b, c, d) (a', b', c', d') = (add32 a a', add32 b b', add32 c c', add32 d d')"

text \<open>Little-endian bytes to a number and back, and a list cut into pieces of \<open>n\<close>.\<close>

fun le_word :: "int list \<Rightarrow> int" where
  "le_word [] = 0"
| "le_word (x # xs) = x + 256 * le_word xs"

function chunks :: "nat \<Rightarrow> 'a list \<Rightarrow> 'a list list" where
  "chunks n xs = (if n = 0 \<or> xs = [] then [] else take n xs # chunks n (drop n xs))"
  by pat_completeness auto

termination
  by (relation "measure (\<lambda>(n, xs). length xs)") auto

declare chunks.simps [simp del]

text \<open>A block of 64 bytes is 16 little-endian words; its 64 operations are run on the state
  and the result is added to the state.\<close>

definition md5_block :: "int \<times> int \<times> int \<times> int \<Rightarrow> int list \<Rightarrow> int \<times> int \<times> int \<times> int" where
  "md5_block st block = add_state st (foldl (md5_round (map le_word (chunks 4 block))) st [0..<64])"

fun le_bytes :: "nat \<Rightarrow> int \<Rightarrow> int list" where
  "le_bytes 0 x = []"
| "le_bytes (Suc n) x = x mod 256 # le_bytes n (x div 256)"

text \<open>Padding: the byte \<^verbatim>\<open>0x80\<close>, zeros up to 56 modulo 64, and the length in bits as 8
  little-endian bytes.\<close>

definition md5_pad :: "int list \<Rightarrow> int list" where
  "md5_pad bs =
     bs @ [128] @ replicate ((119 - length bs mod 64) mod 64) 0 @
     le_bytes 8 (8 * int (length bs))"

text \<open>\<^verbatim>\<open>hexdigest()\<close>: two lowercase hexadecimal digits for each byte of the state.\<close>

definition hex_digit :: "int \<Rightarrow> char" where
  "hex_digit x = ''0123456789abcdef'' ! nat x"

definition hex_byte :: "int \<Rightarrow> string" where
  "hex_byte x = [hex_digit (x div 16), hex_digit (x mod 16)]"

fun state_bytes :: "int \<times> int \<times> int \<times> int \<Rightarrow> int list" where
  "state_bytes (a, b, c, d) = le_bytes 4 a @ le_bytes 4 b @ le_bytes 4 c @ le_bytes 4 d"

text \<open>\<^verbatim>\<open>str.encode()\<close>: UTF-8. A code point below 128 is one byte, a code point from 128 to
  255 is two.\<close>

definition utf8 :: "char \<Rightarrow> int list" where
  "utf8 c = (let n = int (of_char c :: nat)
             in if n < 128 then [n] else [192 + n div 64, 128 + n mod 64])"

definition encode :: "string \<Rightarrow> int list" where
  "encode s = concat (map utf8 s)"

text \<open>\<^verbatim>\<open>hashlib.md5(s.encode()).hexdigest()\<close>.\<close>

definition md5_digest :: "int list \<Rightarrow> int list" where
  "md5_digest bs =
     state_bytes (foldl md5_block (0x67452301, 0xefcdab89, 0x98badcfe, 0x10325476)
                    (chunks 64 (md5_pad bs)))"

definition hashlib_md5 :: "string \<Rightarrow> string" where
  "hashlib_md5 s = concat (map hex_byte (md5_digest (encode s)))"

section \<open>pipeline/pipeline.py: InterviewAnalysisPipeline\<close>

text \<open>
  \<open>None\<close> in a \<open>FinalReport option\<close> is the Python value \<^verbatim>\<open>None\<close>; \<open>cache = None\<close> is
  \<^verbatim>\<open>self.cache = None\<close>, the state of a pipeline built with \<^verbatim>\<open>enable_cache=False\<close>. The
  constructor \<open>init\<close> takes the two chains that \<^verbatim>\<open>_setup_chains\<close> builds from the external
  language models; the API key and the model name play no part in what follows.
\<close>

record pipeline =
  enable_cache :: bool
  max_retries :: int
  cache :: "(string \<times> FinalReport option) list option"
  analyst_chain :: "AnalysisReport chain"
  synthesis_chain :: "FinalReport chain"

definition init :: "AnalysisReport chain \<Rightarrow> FinalReport chain \<Rightarrow> bool \<Rightarrow> int \<Rightarrow> pipeline" where
  "init a_chain s_chain enable_cache_arg max_retries_arg =
     \<lparr>enable_cache = enable_cache_arg,
      max_retries = max_retries_arg,
      cache = (if enable_cache_arg then Some [] else None),
      analyst_chain = a_chain,
      synthesis_chain = s_chain\<rparr>"

text \<open>
  \<^verbatim>\<open>hashlib.md5(transcript.encode()).hexdigest()\<close>: the digest function is a library
  function and is a parameter of the model, so that what is proved of the cache holds for
  every digest function; \<open>hashlib_md5\<close> is the one the source calls.
\<close>

definition get_cache_key :: "(string \<Rightarrow> string) \<Rightarrow> string \<Rightarrow> string" where
  "get_cache_key md5_hexdigest transcript = md5_hexdigest transcript"

text \<open>
  The loop of \<^verbatim>\<open>_invoke_with_retry\<close> over \<^verbatim>\<open>range(1, self.max_retries + 1)\<close>, from
  \<open>attempt\<close> on. When the range is used up the function falls off its end and returns
  \<^verbatim>\<open>None\<close>.
\<close>

function retry_loop ::
  "'o chain \<Rightarrow> input_data \<Rightarrow> string \<Rightarrow> int \<Rightarrow> int \<Rightarrow> world \<Rightarrow> (py_exn + 'o option) \<times> world" where
  "retry_loop ch inp stage_name maxr attempt w =
     (if maxr < attempt then (Inr None, w)
      else
        (case invoke ch inp (logger INFO (Attempt stage_name attempt maxr) w) of
           (Inr result, w1) \<Rightarrow> (Inr (Some result), logger INFO (Success stage_name) w1)
         | (Inl e, w1) \<Rightarrow>
             (let w2 = logger WARNING (AttemptFailed stage_name attempt e) w1
              in if attempt = maxr
                 then (Inl e, logger ERROR (AllAttemptsFailed stage_name) w2)
                 else retry_loop ch inp stage_name maxr (attempt + 1)
                        (logger INFO (Retrying stage_name) w2))))"
  by pat_completeness auto
termination
  by (relation "measure (\<lambda>(ch, inp, stage_name, maxr, attempt, w). nat (maxr + 1 - attempt))") auto

declare retry_loop.simps [simp del]

definition invoke_with_retry ::
  "pipeline \<Rightarrow> 'o chain \<Rightarrow> input_data \<Rightarrow> string \<Rightarrow> world \<Rightarrow> (py_exn + 'o option) \<times> world" where
  "invoke_with_retry self ch inp stage_name w =
     retry_loop ch inp stage_name (max_retries self) 1 w"

text \<open>Lines 160-166 of \<^verbatim>\<open>analyze\<close>: the input check; \<open>Some e\<close> is the exception raised.\<close>

definition input_check :: "pydict \<Rightarrow> world \<Rightarrow> py_exn option \<times> world" where
  "input_check transcript w =
     (let w1 = logger INFO ValidatingTranscript w
      in case validate_transcript transcript of
           Inl e \<Rightarrow> (Some e, w1)
         | Inr (is_valid, error_msg) \<Rightarrow>
             (let shown = (case error_msg of None \<Rightarrow> ''None'' | Some m \<Rightarrow> m)
              in if \<not> is_valid
                 then (Some (ValueError (''Invalid transcript: '' @ shown)),
                       logger ERROR (ValidationFailed shown) w1)
                 else (None, logger INFO TranscriptValid w1)))"

text \<open>
  Lines 169-174: the lookup. \<open>Inr (Some r)\<close> is a hit returning \<open>r\<close>, \<open>Inr None\<close> a miss or a
  lookup that is switched off.
\<close>

definition cache_lookup ::
  "(string \<Rightarrow> string) \<Rightarrow> pipeline \<Rightarrow> string \<Rightarrow> bool \<Rightarrow> world
     \<Rightarrow> (py_exn + FinalReport option option) \<times> world" where
  "cache_lookup md5_hexdigest self formatted_transcript use_cache w =
     (if use_cache \<and> enable_cache self
      then
        (let cache_key = get_cache_key md5_hexdigest formatted_transcript
         in case cache self of
              None \<Rightarrow> (Inl (TypeError (''argument of type '' @ [CHR 0x27] @ ''NoneType'' @ [CHR 0x27] @
                                '' is not iterable'')), w)
            | Some c \<Rightarrow>
                (case map_of c cache_key of
                   Some r \<Rightarrow> (Inr (Some r), logger INFO CacheHit w)
                 | None \<Rightarrow> (Inr None, logger INFO CacheMiss w)))
      else (Inr None, w))"

text \<open>Lines 175-188: the two stages.\<close>

definition run_stages ::
  "pipeline \<Rightarrow> string \<Rightarrow> world \<Rightarrow> (py_exn + FinalReport option) \<times> world" where
  "run_stages self formatted_transcript w =
     (case invoke_with_retry self (analyst_chain self) (TranscriptInput formatted_transcript)
             ''Analyst'' (logger INFO RunningAnalyst w) of
        (Inl e, w1) \<Rightarrow> (Inl e, w1)
      | (Inr None, w1) \<Rightarrow> (Inl (no_attribute ''NoneType'' ''snippets''), w1)
      | (Inr (Some analysis_report), w1) \<Rightarrow>
          (let w2 = logger INFO (AnalysisComplete (length (snippets analysis_report))) w1
           in case invoke_with_retry self (synthesis_chain self)
                     (AnalysisReportInput analysis_report) ''Synthesis''
                     (logger INFO RunningSynthesis w2) of
                (Inl e, w3) \<Rightarrow> (Inl e, w3)
              | (Inr final_report, w3) \<Rightarrow> (Inr final_report, logger INFO SynthesisComplete w3)))"

text \<open>Lines 189-197: the quality check, which only writes to the log.\<close>

definition quality_check :: "FinalReport option \<Rightarrow> world \<Rightarrow> py_exn option \<times> world" where
  "quality_check final_report w =
     (let w1 = logger INFO ValidatingQuality w
      in case final_report of
           None \<Rightarrow> (Some (no_attribute ''NoneType'' ''candidate_summary''), w1)
         | Some report \<Rightarrow>
             (case validate_report_quality report of
                (is_valid, issues) \<Rightarrow>
                  if \<not> is_valid
                  then (None, foldl (\<lambda>w' issue. logger WARNING (QualityIssue issue) w')
                                (logger WARNING QualityIssuesDetected w1) issues)
                  else (None, logger INFO QualityValidated w1)))"

text \<open>Lines 198-201: the store.\<close>

definition cache_store ::
  "(string \<Rightarrow> string) \<Rightarrow> pipeline \<Rightarrow> string \<Rightarrow> FinalReport option \<Rightarrow> bool \<Rightarrow> world
     \<Rightarrow> py_exn option \<times> pipeline \<times> world" where
  "cache_store md5_hexdigest self formatted_transcript final_report use_cache w =
     (if use_cache \<and> enable_cache self
      then
        (let cache_key = get_cache_key md5_hexdigest formatted_transcript
         in case cache self of
              None \<Rightarrow>
                (Some (TypeError ([CHR 0x27] @ ''NoneType'' @ [CHR 0x27] @
                                  '' object does not support item assignment'')), self, w)
            | Some c \<Rightarrow>
                (None, self\<lparr>cache := Some (AList.update cache_key final_report c)\<rparr>,
                 logger INFO ResultCached w))
      else (None, self, w))"

definition analyze ::
  "(string \<Rightarrow> string) \<Rightarrow> pipeline \<Rightarrow> pydict \<Rightarrow> bool \<Rightarrow> bool \<Rightarrow> bool \<Rightarrow> world
     \<Rightarrow> (py_exn + FinalReport option) \<times> pipeline \<times> world" where
  "analyze md5_hexdigest self transcript validate_input validate_output use_cache w =
     (let w0 = logger INFO Banner (logger INFO StartingPipeline (logger INFO Banner w))
      in case (if validate_input then input_check transcript w0 else (None, w0)) of
           (Some e, w1) \<Rightarrow> (Inl e, self, w1)
         | (None, w1) \<Rightarrow>
        (case format_transcript transcript of
           Inl e \<Rightarrow> (Inl e, self, w1)
         | Inr formatted_transcript \<Rightarrow>
        (let w2 = logger INFO (TranscriptFormatted (length formatted_transcript)) w1
         in case cache_lookup md5_hexdigest self formatted_transcript use_cache w2 of
           (Inl e, w3) \<Rightarrow> (Inl e, self, w3)
         | (Inr (Some cached), w3) \<Rightarrow> (Inr cached, self, w3)
         | (Inr None, w3) \<Rightarrow>
        (case run_stages self formatted_transcript w3 of
           (Inl e, w4) \<Rightarrow> (Inl e, self, w4)
         | (Inr final_report, w4) \<Rightarrow>
        (case (if validate_output then quality_check final_report w4 else (None, w4)) of
           (Some e, w5) \<Rightarrow> (Inl e, self, w5)
         | (None, w5) \<Rightarrow>
        (case cache_store md5_hexdigest self formatted_transcript final_report use_cache w5 of
           (Some e, self', w6) \<Rightarrow> (Inl e, self', w6)
         | (None, self', w6) \<Rightarrow>
             (Inr final_report, self',
              logger INFO Banner (logger INFO PipelineCompleted (logger INFO Banner w6)))))))))"

definition clear_cache :: "pipeline \<Rightarrow> world \<Rightarrow> pipeline \<times> world" where
  "clear_cache self w =
     (case cache self of
        None \<Rightarrow> (self, w)
      | Some c \<Rightarrow> if c = [] then (self, w)
                 else (self\<lparr>cache := Some []\<rparr>, logger INFO CacheCleared w))"

datatype stat = StatBool bool | StatInt nat | StatKeys "string list"

definition get_cache_stats :: "pipeline \<Rightarrow> py_exn + (string \<times> stat) list" where
  "get_cache_stats self =
     (if \<not> enable_cache self then Inr [(''enabled'', StatBool False)]
      else case cache self of
             None \<Rightarrow> Inl (TypeError (''object of type '' @ [CHR 0x27] @ ''NoneType'' @ [CHR 0x27] @
                              '' has no len()''))
           | Some c \<Rightarrow>
               Inr [(''enabled'', StatBool True), (''size'', StatInt (length c)),
                    (''keys'', StatKeys (keys c))])"

section \<open>main.py: the request handler\<close>

text \<open>
  The request body has been validated against \<^verbatim>\<open>AnalysisRequest\<close>: \<^verbatim>\<open>metadata\<close> is a
  dictionary and \<^verbatim>\<open>transcript\<close> a \<^verbatim>\<open>Dict[str, str]\<close>; \<^verbatim>\<open>request.dict()\<close> is the dictionary
  of the two fields. \<open>exn_str\<close> is \<^verbatim>\<open>str(e)\<close>.
\<close>

record AnalysisRequest =
  request_metadata :: pydict
  request_transcript :: "(string \<times> string) list"

definition request_dict :: "AnalysisRequest \<Rightarrow> pydict" where
  "request_dict request =
     [(''metadata'', PDict (request_metadata request)),
      (''transcript'', PDict (map (\<lambda>kv. (fst kv, PStr (snd kv))) (request_transcript request)))]"

fun exn_str :: "py_exn \<Rightarrow> string" where
  "exn_str (ValueError m) = m"
| "exn_str (AttributeError m) = m"
| "exn_str (TypeError m) = m"
| "exn_str (KeyError m) = repr_str m"
| "exn_str (OtherError m) = m"

datatype handler_result = Returned "FinalReport option" | HTTPException nat string

definition analyze_interview ::
  "(string \<Rightarrow> string) \<Rightarrow> pipeline \<Rightarrow> AnalysisRequest \<Rightarrow> world \<Rightarrow> handler_result \<times> pipeline \<times> world" where
  "analyze_interview md5_hexdigest pipeline_obj request w =
     (case analyze md5_hexdigest pipeline_obj (request_dict request) True True True w of
        (Inr report, p', w') \<Rightarrow> (Returned report, p', w')
      | (Inl (ValueError m), p', w') \<Rightarrow> (HTTPException 400 (exn_str (ValueError m)), p', w')
      | (Inl e, p', w') \<Rightarrow>
          (HTTPException 500 (''An unexpected error occurred: '' @ exn_str e), p', w'))"

section \<open>Reference definitions for the properties below\<close>

text \<open>
  The definitions of this section are not translations of the source: each one restates
  a property in its own terms, to be compared with the function it describes.
\<close>

text \<open>A transcript mapping \<^verbatim>\<open>Dict[str, str]\<close> as a dictionary of values.\<close>

definition flat :: "(string \<times> string) list \<Rightarrow> pydict" where
  "flat m = map (\<lambda>kv. (fst kv, PStr (snd kv))) m"

text \<open>The issue one recommended resource gives rise to, if any.\<close>

definition resource_issue :: "RecommendedResource \<Rightarrow> string list" where
  "resource_issue r =
     (if list_all isspace (link r)
      then [''Resource '' @ [CHR 0x27] @ topic r @ [CHR 0x27] @ '' has empty link'']
      else if startswith (link r) ''http://'' \<or> startswith (link r) ''https://''
      then []
      else [''Resource '' @ [CHR 0x27] @ topic r @ [CHR 0x27] @ '' has invalid link format''])"

text \<open>The issues of a report, one per violated check, in the order of the checks.\<close>

definition quality_issues :: "FinalReport \<Rightarrow> string list" where
  "quality_issues report =
     (if length (headline (candidate_summary report)) < 20
      then [''Headline is too short/generic''] else []) @
     (if length (overall_impression (candidate_summary report)) < 50
      then [''Overall impression lacks detail''] else []) @
     (if strengths (insights report) = [] then [''No strengths identified''] else []) @
     (if weaknesses (insights report) = [] then [''No weaknesses identified''] else []) @
     (if priority_topics (development_plan report) = []
      then [''No priority topics defined''] else []) @
     (if length (roadmap_2_weeks (development_plan report)) < 2
      then [''2-week roadmap insufficiently detailed''] else []) @
     (if recommended_resources (development_plan report) = []
      then [''No learning resources provided''] else []) @
     concat (map resource_issue (recommended_resources (development_plan report)))"

definition good_link :: "string \<Rightarrow> bool" where
  "good_link l =
     (\<not> list_all isspace l \<and> (startswith l ''http://'' \<or> startswith l ''https://''))"

definition well_formed_report :: "FinalReport \<Rightarrow> bool" where
  "well_formed_report report =
     (20 \<le> length (headline (candidate_summary report)) \<and>
      50 \<le> length (overall_impression (candidate_summary report)) \<and>
      1 \<le> length (strengths (insights report)) \<and>
      1 \<le> length (weaknesses (insights report)) \<and>
      1 \<le> length (priority_topics (development_plan report)) \<and>
      2 \<le> length (roadmap_2_weeks (development_plan report)) \<and>
      1 \<le> length (recommended_resources (development_plan report)) \<and>
      list_all (\<lambda>r. good_link (link r)) (recommended_resources (development_plan report)))"

text \<open>Two reports to run the validator on.\<close>

definition sparse_report :: FinalReport where
  "sparse_report =
     \<lparr>candidate_summary =
        \<lparr>headline = ''A promising backend intern candidate'',
         overall_impression =
           ''Communicates clearly and recovers from mistakes, with gaps in database theory.''\<rparr>,
      insights =
        \<lparr>strengths = [],
         weaknesses = [\<lparr>weakness_skill = ''ACID'', weakness_evidence = ''Confused C'',
                        priority = High\<rparr>]\<rparr>,
      development_plan =
        \<lparr>priority_topics = [''Databases''],
         roadmap_2_weeks =
           [\<lparr>timespan = ''Day 1-5'', focus = ''SQL'', activities = [''Read'']\<rparr>,
            \<lparr>timespan = ''Day 6-10'', focus = ''ACID'', activities = [''Practise'']\<rparr>],
         recommended_resources =
           [\<lparr>topic = ''SQL'', link = ''not-a-url'', reason = ''Basics''\<rparr>,
            \<lparr>topic = ''ACID'', link = ''  '', reason = ''Theory''\<rparr>,
            \<lparr>topic = ''Flask'', link = ''https://flask.palletsprojects.com'',
             reason = ''Practice''\<rparr>]\<rparr>\<rparr>"

definition full_report :: FinalReport where
  "full_report =
     \<lparr>candidate_summary =
        \<lparr>headline = ''A promising backend intern candidate'',
         overall_impression =
           ''Communicates clearly and recovers from mistakes, with gaps in database theory.''\<rparr>,
      insights =
        \<lparr>strengths = [\<lparr>strength_skill = ''Honesty'', strength_evidence = ''Corrected C''\<rparr>],
         weaknesses = [\<lparr>weakness_skill = ''ACID'', weakness_evidence = ''Confused C'',
                        priority = High\<rparr>]\<rparr>,
      development_plan =
        \<lparr>priority_topics = [''Databases''],
         roadmap_2_weeks =
           [\<lparr>timespan = ''Day 1-5'', focus = ''SQL'', activities = [''Read'']\<rparr>,
            \<lparr>timespan = ''Day 6-10'', focus = ''ACID'', activities = [''Practise'']\<rparr>],
         recommended_resources =
           [\<lparr>topic = ''Flask'', link = ''https://flask.palletsprojects.com'',
             reason = ''Practice''\<rparr>]\<rparr>\<rparr>"

text \<open>
  The ordered checks of the transcript validator on a transcript mapping: the result is
  the first failing check's message, or success.
\<close>

definition mentions :: "string \<Rightarrow> string \<Rightarrow> bool" where
  "mentions word k = str_in word (lower k)"

definition validate_reference :: "(string \<times> string) list \<Rightarrow> bool \<times> string option" where
  "validate_reference m =
     (if m = [] then (False, Some ''Transcript cannot be empty'')
      else if length m < 2 then (False, Some ''Transcript must have at least 2 exchanges'')
      else if list_all (\<lambda>kv. \<not> mentions ''interviewer'' (fst kv)) m
      then (False, Some ''Transcript must include interviewer questions'')
      else if list_all (\<lambda>kv. \<not> mentions ''candidate'' (fst kv)) m
      then (False, Some ''Transcript must include candidate responses'')
      else case find (\<lambda>kv. list_all isspace (snd kv)) m of
             Some kv \<Rightarrow> (False, Some (''Entry '' @ [CHR 0x27] @ fst kv @ [CHR 0x27] @ '' is empty''))
           | None \<Rightarrow> (True, None))"

text \<open>
  The reference rendering of a transcript mapping: entries ordered by (role rank, key),
  each rendered as a line \<^verbatim>\<open>Role: text\<close>, the lines joined by a blank line.
\<close>

definition role_rank :: "string \<Rightarrow> nat" where
  "role_rank k =
     (if mentions ''interviewer'' k then 0 else if mentions ''candidate'' k then 1 else 2)"

definition role_label :: "string \<Rightarrow> string" where
  "role_label k = (if role_rank k = 0 then ''Interviewer'' else ''Candidate'')"

definition format_reference :: "(string \<times> string) list \<Rightarrow> string" where
  "format_reference m =
     join [CHR 0x0A, CHR 0x0A]
       (map (\<lambda>kv. role_label (fst kv) @ '': '' @ snd kv)
          (sort_key (\<lambda>kv. (role_rank (fst kv), fst kv)) m))"

text \<open>\<^verbatim>\<open>s.index(p)\<close>: the position of the first occurrence of \<open>p\<close> in \<open>s\<close>, if any.\<close>

fun str_index :: "string \<Rightarrow> string \<Rightarrow> nat option" where
  "str_index p [] = (if p = [] then Some 0 else None)"
| "str_index p (c # cs) =
     (if take (length p) (c # cs) = p then Some 0 else map_option Suc (str_index p cs))"

definition ordering_example :: "(string \<times> string) list" where
  "ordering_example =
     [(''candidate'', ''answer''), (''interviewer'', ''question''),
      (''candidate_1'', ''answer 2''), (''interviewer_1'', ''question 2'')]"

text \<open>The text an entry of a dictionary is rendered with.\<close>

definition entry_text :: "pydict \<Rightarrow> string \<Rightarrow> string" where
  "entry_text d k = (case map_of d k of Some v \<Rightarrow> py_str v | None \<Rightarrow> [])"

text \<open>Backends, a pipeline and a world to run the stage runner and the pipeline on.\<close>

definition empty_world :: world where
  "empty_world = \<lparr>calls = [], log = []\<rparr>"

definition no_snippets :: AnalysisReport where
  "no_snippets = \<lparr>snippets = []\<rparr>"

text \<open>A chain whose every call fails.\<close>

definition failing_chain :: "chain_name \<Rightarrow> 'o chain" where
  "failing_chain n = \<lparr>chain_name = n, respond = (\<lambda>h inp. Inl (OtherError ''boom''))\<rparr>"

text \<open>A chain that fails while fewer than \<open>n\<close> calls have been made in all, then answers \<open>r\<close>.\<close>

definition flaky_chain :: "chain_name \<Rightarrow> nat \<Rightarrow> 'o \<Rightarrow> 'o chain" where
  "flaky_chain nm n r =
     \<lparr>chain_name = nm,
      respond = (\<lambda>h inp. if length h < n then Inl (OtherError ''timeout'') else Inr r)\<rparr>"

definition example_pipeline :: "bool \<Rightarrow> int \<Rightarrow> pipeline" where
  "example_pipeline enable_cache_arg max_retries_arg =
     init (flaky_chain AnalystChain 2 no_snippets) (flaky_chain SynthesisChain 0 sparse_report)
       enable_cache_arg max_retries_arg"

definition example_request :: pydict where
  "example_request =
     [(''metadata'', PDict [(''candidate_id'', PStr ''C-1'')]),
      (''transcript'', PDict (flat [(''interviewer'', ''Q?''), (''candidate'', ''A.'')]))]"

text \<open>
  Both stages succeed on the formatted transcript \<open>f\<close>, run after the backend calls
  \<open>history\<close>: the Analyst stage returns some analysis, and the Synthesis stage, run on
  that analysis, returns \<open>report\<close>.
\<close>

definition stages_succeeded :: "pipeline \<Rightarrow> string \<Rightarrow> call list \<Rightarrow> FinalReport \<Rightarrow> bool" where
  "stages_succeeded self f history report =
     (\<exists>a w1 w2 w3 w4.
        calls w1 = history \<and>
        invoke_with_retry self (analyst_chain self) (TranscriptInput f) ''Analyst'' w1 =
          (Inr (Some a), w2) \<and>
        calls w3 = calls w2 \<and>
        invoke_with_retry self (synthesis_chain self) (AnalysisReportInput a) ''Synthesis'' w3 =
          (Inr (Some report), w4))"

text \<open>
  A stage fails with \<open>e\<close> on the formatted transcript \<open>f\<close>, run after the backend calls
  \<open>history\<close>: the Analyst stage raises \<open>e\<close>, or it returns some analysis and the Synthesis
  stage, run on that analysis, raises \<open>e\<close>.
\<close>

definition stage_failed :: "pipeline \<Rightarrow> string \<Rightarrow> call list \<Rightarrow> py_exn \<Rightarrow> bool" where
  "stage_failed self f history e =
     (\<exists>w1. calls w1 = history \<and>
        (fst (invoke_with_retry self (analyst_chain self) (TranscriptInput f) ''Analyst'' w1) =
           Inl e \<or>
         (\<exists>a w2 w3.
            invoke_with_retry self (analyst_chain self) (TranscriptInput f) ''Analyst'' w1 =
              (Inr (Some a), w2) \<and>
            calls w3 = calls w2 \<and>
            fst (invoke_with_retry self (synthesis_chain self) (AnalysisReportInput a)
                   ''Synthesis'' w3) = Inl e)))"

text \<open>A pipeline in which every backend call fails.\<close>

definition failing_pipeline :: "bool \<Rightarrow> int \<Rightarrow> pipeline" where
  "failing_pipeline enable_cache_arg max_retries_arg =
     init (failing_chain AnalystChain) (failing_chain SynthesisChain)
       enable_cache_arg max_retries_arg"

text \<open>
  What the lookup of \<open>analyze\<close> finds for the formatted transcript \<open>f\<close>: \<open>Some r\<close> when the
  cache is consulted and holds \<open>r\<close> under the fingerprint of \<open>f\<close>, \<open>None\<close> otherwise.
\<close>

definition cached_value ::
  "(string \<Rightarrow> string) \<Rightarrow> pipeline \<Rightarrow> string \<Rightarrow> bool \<Rightarrow> FinalReport option option" where
  "cached_value md5 self f use_cache =
     (if use_cache \<and> enable_cache self
      then (case cache self of None \<Rightarrow> None | Some c \<Rightarrow> map_of c (get_cache_key md5 f))
      else None)"

text \<open>The response the request handler gives for an exception raised by \<open>analyze\<close>.\<close>

definition error_response :: "py_exn \<Rightarrow> handler_result" where
  "error_response e =
     (case e of
        ValueError m \<Rightarrow> HTTPException 400 m
      | _ \<Rightarrow> HTTPException 500 (''An unexpected error occurred: '' @ exn_str e))"

text \<open>
  A run of the two stages on the formatted transcript \<open>f\<close>, after the backend calls
  \<open>history\<close>: the Analyst stage is run; when it raises, that error is the outcome; when
  it falls through without an analysis, the outcome is the \<^verbatim>\<open>AttributeError\<close> of line 181;
  when it returns an analysis, the Synthesis stage is run on that analysis and its
  outcome is the outcome of the run. \<open>history'\<close> are the backend calls after the run.
\<close>

definition runs_both_stages ::
  "pipeline \<Rightarrow> string \<Rightarrow> call list \<Rightarrow> py_exn + FinalReport option \<Rightarrow> call list \<Rightarrow> bool" where
  "runs_both_stages self f history outcome history' =
     (\<exists>w1 ra w2.
        calls w1 = history \<and>
        invoke_with_retry self (analyst_chain self) (TranscriptInput f) ''Analyst'' w1 = (ra, w2) \<and>
        (case ra of
           Inl e \<Rightarrow> outcome = Inl e \<and> history' = calls w2
         | Inr None \<Rightarrow> outcome = Inl (no_attribute ''NoneType'' ''snippets'') \<and> history' = calls w2
         | Inr (Some a) \<Rightarrow>
             (\<exists>w3 w4.
                calls w3 = calls w2 \<and>
                invoke_with_retry self (synthesis_chain self) (AnalysisReportInput a)
                  ''Synthesis'' w3 = (outcome, w4) \<and>
                history' = calls w4)))"

section \<open>Facts about the string operations\<close>

lemma strip_empty_iff: "strip s = [] \<longleftrightarrow> list_all isspace s"
proof
  assume "strip s = []"
  then have all: "\<forall>x\<in>set (dropWhile isspace s). isspace x"
    by (simp add: strip_def)
  have "dropWhile isspace s = []"
  proof (cases "dropWhile isspace s")
    case Nil
    then show ?thesis .
  next
    case (Cons c cs)
    then have "\<not> isspace c"
      using hd_dropWhile[of isspace s] by auto
    with all Cons show ?thesis by simp
  qed
  then show "list_all isspace s"
    by (simp add: list_all_iff)
next
  assume "list_all isspace s"
  then show "strip s = []"
    by (auto simp: strip_def list_all_iff dest: set_dropWhileD)
qed

lemma blank_iff: "blank s \<longleftrightarrow> list_all isspace s"
  by (auto simp: blank_def strip_empty_iff)
section \<open>The digest\<close>

text \<open>
  The test suite of RFC 1321, a string with a code point above 127, strings whose padding
  ends a block, starts a new one and follows a full one, and a formatted transcript. The
  digests are those \<^verbatim>\<open>hashlib\<close> gives.
\<close>

lemma hashlib_md5_rfc1321:
  "hashlib_md5 [] = ''d41d8cd98f00b204e9800998ecf8427e''"
  "hashlib_md5 ''a'' = ''0cc175b9c0f1b6a831c399e269772661''"
  "hashlib_md5 ''abc'' = ''900150983cd24fb0d6963f7d28e17f72''"
  "hashlib_md5 ''message digest'' = ''f96b697d7cb7938d525a2f31aaf161d0''"
  "hashlib_md5 ''abcdefghijklmnopqrstuvwxyz'' = ''c3fcd3d76192e4007dfb496cca67e13b''"
  by code_simp+

lemma hashlib_md5_rfc1321_long:
  "hashlib_md5 ''ABCDEFGHIJKLMNOPQRSTUVWXYZabcdefghijklmnopqrstuvwxyz0123456789'' =
     ''d174ab98d277d9f5a5611c2c9f419d9f''"
  "hashlib_md5
     ''12345678901234567890123456789012345678901234567890123456789012345678901234567890'' =
     ''57edf4a22be3c955ac49da2e2107b67a''"
  by code_simp+

lemma hashlib_md5_padding:
  "hashlib_md5 (replicate 55 CHR ''x'') = ''04364420e25c512fd958a70738aa8f72''"
  "hashlib_md5 (replicate 56 CHR ''x'') = ''668a72d5ba17f08e62dabcafad6db14b''"
  "hashlib_md5 (replicate 64 CHR ''x'') = ''c1bb4f81d892b2d57947682aeb252456''"
  by code_simp+

lemma hashlib_md5_examples:
  "hashlib_md5 (''caf'' @ [CHR 0xE9]) = ''07117fe4a1ebd544965dc19573183da2''"
  "hashlib_md5 (''Interviewer: Q?'' @ [CHR 0x0A, CHR 0x0A] @ ''Candidate: A.'') =
     ''8bfda0601adee9374dde4c4f709c9af7''"
  by code_simp+

section \<open>The report quality validator\<close>

lemma check_resource_append: "check_resource issues r = issues @ resource_issue r"
  using strip_empty_iff[of "link r"]
  by (auto simp: check_resource_def resource_issue_def)

lemma foldl_check_resource:
  "foldl check_resource issues rs = issues @ concat (map resource_issue rs)"
  by (induction rs arbitrary: issues) (simp_all add: check_resource_append)

lemma resource_issue_Nil_iff: "resource_issue r = [] \<longleftrightarrow> good_link (link r)"
  by (simp add: resource_issue_def good_link_def)

lemma quality_issues_Nil_iff: "quality_issues report = [] \<longleftrightarrow> well_formed_report report"
proof -
  have "concat (map resource_issue rs) = [] \<longleftrightarrow> list_all (\<lambda>r. good_link (link r)) rs" for rs
    by (induction rs) (simp_all add: resource_issue_Nil_iff)
  then show ?thesis
    unfolding quality_issues_def well_formed_report_def
    by (auto simp: Suc_le_eq not_less)
qed

text \<open>
  C7. \<open>validate_report_quality\<close> returns \<open>(passed, issues)\<close> where \<open>issues\<close> holds exactly one
  entry for every violated check, in the order of the checks (headline under 20
  characters, overall impression under 50, no strength, no weakness, no priority topic,
  fewer than 2 roadmap steps, no recommended resource, and for each resource at most one
  entry that names its topic: a link that is empty or all whitespace, or else a link
  that starts with neither \<^verbatim>\<open>http://\<close> nor \<^verbatim>\<open>https://\<close>); \<open>passed\<close> holds exactly when
  \<open>issues\<close> is empty, which is exactly when the report is well formed.
\<close>

theorem validate_report_quality_issues:
  "validate_report_quality report = (quality_issues report = [], quality_issues report) \<and>
   (quality_issues report = [] \<longleftrightarrow> well_formed_report report)"
proof -
  have "validate_report_quality report = (quality_issues report = [], quality_issues report)"
    unfolding validate_report_quality_def quality_issues_def Let_def
    by (simp add: foldl_check_resource)
  then show ?thesis
    by (simp add: quality_issues_Nil_iff)
qed

theorem validate_report_quality_issues_witness:
  "validate_report_quality sparse_report =
     (False,
      [''No strengths identified'',
       ''Resource '' @ [CHR 0x27] @ ''SQL'' @ [CHR 0x27] @ '' has invalid link format'',
       ''Resource '' @ [CHR 0x27] @ ''ACID'' @ [CHR 0x27] @ '' has empty link'']) \<and>
   well_formed_report full_report \<and>
   validate_report_quality full_report = (True, [])"
proof -
  have "quality_issues sparse_report =
          [''No strengths identified'',
           ''Resource '' @ [CHR 0x27] @ ''SQL'' @ [CHR 0x27] @ '' has invalid link format'',
           ''Resource '' @ [CHR 0x27] @ ''ACID'' @ [CHR 0x27] @ '' has empty link'']"
    by (simp add: quality_issues_def sparse_report_def resource_issue_def startswith_def
        isspace_def)
  moreover have "well_formed_report full_report"
    by (simp add: well_formed_report_def full_report_def good_link_def startswith_def
        isspace_def)
  ultimately show ?thesis
    using validate_report_quality_issues[of sparse_report]
      validate_report_quality_issues[of full_report]
    by simp
qed
section \<open>The transcript validator\<close>

lemma keys_flat: "keys (flat m) = map fst m"
  by (simp add: keys_def flat_def comp_def)

lemma length_flat: "length (flat m) = length m"
  by (simp add: flat_def)

lemma flat_Nil_iff: "flat m = [] \<longleftrightarrow> m = []"
  by (simp add: flat_def)

lemma check_entries_flat:
  "check_entries (flat m) =
     Inr (case find (\<lambda>kv. list_all isspace (snd kv)) m of
            Some kv \<Rightarrow> (False, Some (''Entry '' @ [CHR 0x27] @ fst kv @ [CHR 0x27] @ '' is empty''))
          | None \<Rightarrow> (True, None))"
proof (induction m)
  case Nil
  then show ?case by (simp add: flat_def)
next
  case (Cons kv m)
  have "flat (kv # m) = (fst kv, PStr (snd kv)) # flat m"
    by (simp add: flat_def)
  with Cons show ?case
    by (simp add: blank_iff)
qed

text \<open>
  On the transcript mapping \<open>m\<close> it examines (the object itself when it has no key
  \<^verbatim>\<open>transcript\<close>, or the mapping under that key), \<open>validate_transcript\<close> returns the outcome of
  the first failing check in this order: no entry, fewer than 2 entries, no key that
  contains \<^verbatim>\<open>interviewer\<close> in any letter case, no key that contains \<^verbatim>\<open>candidate\<close> in any
  letter case, and the first entry in the mapping's order whose text is empty or all
  whitespace, named by its key; when no check fails the result is success with no
  message.
\<close>

lemma validate_transcript_checks:
  assumes "unwrapped obj = PDict (flat m)"
  shows "validate_transcript obj = Inr (validate_reference m)"
proof -
  have ex: "list_ex (\<lambda>k. str_in w (lower k)) (map fst m) \<longleftrightarrow>
            \<not> list_all (\<lambda>kv. \<not> mentions w (fst kv)) m" for w
    by (auto simp: list_ex_iff list_all_iff mentions_def)
  show ?thesis
    unfolding validate_transcript_def validate_reference_def
    by (simp add: assms flat_Nil_iff length_flat keys_flat ex check_entries_flat)
qed

lemma validate_transcript_checks_witness:
  "unwrapped [(''metadata'', PDict [(''candidate_id'', PStr ''C-1'')]),
              (''transcript'',
               PDict (flat [(''Interviewer'', ''Q?''), (''notes'', ''ok''),
                            (''candidate_1'', [CHR 0x20, CHR 0x09]), (''candidate_2'', [])]))] =
     PDict (flat [(''Interviewer'', ''Q?''), (''notes'', ''ok''),
                  (''candidate_1'', [CHR 0x20, CHR 0x09]), (''candidate_2'', [])]) \<and>
   validate_transcript
     [(''metadata'', PDict [(''candidate_id'', PStr ''C-1'')]),
      (''transcript'',
       PDict (flat [(''Interviewer'', ''Q?''), (''notes'', ''ok''),
                    (''candidate_1'', [CHR 0x20, CHR 0x09]), (''candidate_2'', [])]))] =
     Inr (False, Some (''Entry '' @ [CHR 0x27] @ ''candidate_1'' @ [CHR 0x27] @ '' is empty''))"
proof -
  let ?m = "[(''Interviewer'', ''Q?''), (''notes'', ''ok''),
             (''candidate_1'', [CHR 0x20, CHR 0x09]), (''candidate_2'', [])]"
  let ?obj = "[(''metadata'', PDict [(''candidate_id'', PStr ''C-1'')]),
               (''transcript'', PDict (flat ?m))]"
  have h: "unwrapped ?obj = PDict (flat ?m)"
    by (simp add: unwrapped_def)
  have r: "validate_reference ?m =
             (False, Some (''Entry '' @ [CHR 0x27] @ ''candidate_1'' @ [CHR 0x27] @ '' is empty''))"
    by code_simp
  show ?thesis
    using validate_transcript_checks[OF h] h r by simp
qed

text \<open>
  C4. On a flat transcript mapping that has a field named \<^verbatim>\<open>transcript\<close> the validator does
  not decide by the ordered checks on the mapping: it takes the text of that field for
  the transcript. The mapping of the two entries \<^verbatim>\<open>interviewer\<close> and an empty
  \<^verbatim>\<open>transcript\<close> is reported as empty, where the checks give the missing candidate; the
  mapping of the two entries \<^verbatim>\<open>candidate\<close> and \<^verbatim>\<open>transcript\<close> makes the validator raise
  \<^verbatim>\<open>AttributeError\<close>, where the checks give the missing interviewer.
\<close>

theorem validate_transcript_misreads_flat_mapping:
  "validate_transcript (flat [(''interviewer'', ''Q?''), (''transcript'', [])]) =
     Inr (False, Some ''Transcript cannot be empty'') \<and>
   validate_reference [(''interviewer'', ''Q?''), (''transcript'', [])] =
     (False, Some ''Transcript must include candidate responses'') \<and>
   validate_transcript (flat [(''candidate'', ''A.''), (''transcript'', ''notes'')]) =
     Inl (no_attribute ''str'' ''keys'') \<and>
   validate_reference [(''candidate'', ''A.''), (''transcript'', ''notes'')] =
     (False, Some ''Transcript must include interviewer questions'')"
  by code_simp
section \<open>The two accepted shapes of a transcript object\<close>

lemma map_of_flat: "map_of (flat m) k = map_option PStr (map_of m k)"
  by (induction m) (simp_all add: flat_def)

lemma unwrapped_flat:
  assumes "''transcript'' \<notin> fst ` set m"
  shows "unwrapped (flat m) = PDict (flat m)"
proof -
  from assms have "map_of m ''transcript'' = None"
    by (simp add: map_of_eq_None_iff)
  then show ?thesis
    by (simp add: unwrapped_def map_of_flat)
qed

lemma unwrapped_outer:
  assumes "map_of outer ''transcript'' = Some inner"
  shows "unwrapped outer = inner"
  using assms by (simp add: unwrapped_def)

text \<open>
  C8. The transcript mapping with the fields \<^verbatim>\<open>interviewer\<close>, \<^verbatim>\<open>candidate\<close> and
  \<^verbatim>\<open>transcript\<close> is not accepted in both shapes: wrapped under the key \<^verbatim>\<open>transcript\<close> it is
  normalized to three lines and validated, while passed flat both functions take the
  text of its field \<^verbatim>\<open>transcript\<close> for the transcript and raise \<^verbatim>\<open>AttributeError\<close>.
\<close>

theorem wrapped_and_flat_shapes_differ:
  "format_transcript
     [(''transcript'',
       PDict (flat [(''interviewer'', ''Q?''), (''candidate'', ''A.''), (''transcript'', ''notes'')]))]
   \<noteq> format_transcript
       (flat [(''interviewer'', ''Q?''), (''candidate'', ''A.''), (''transcript'', ''notes'')]) \<and>
   validate_transcript
     [(''transcript'',
       PDict (flat [(''interviewer'', ''Q?''), (''candidate'', ''A.''), (''transcript'', ''notes'')]))]
   \<noteq> validate_transcript
       (flat [(''interviewer'', ''Q?''), (''candidate'', ''A.''), (''transcript'', ''notes'')])"
proof -
  let ?m = "[(''interviewer'', ''Q?''), (''candidate'', ''A.''), (''transcript'', ''notes'')]"
  have f1: "format_transcript [(''transcript'', PDict (flat ?m))] =
              Inr (''Interviewer: Q?'' @ [CHR 0x0A, CHR 0x0A] @ ''Candidate: A.'' @
                   [CHR 0x0A, CHR 0x0A] @ ''Candidate: notes'')"
    by code_simp
  have f2: "format_transcript (flat ?m) = Inl (no_attribute ''str'' ''keys'')"
    by code_simp
  have v1: "validate_transcript [(''transcript'', PDict (flat ?m))] = Inr (True, None)"
    by code_simp
  have v2: "validate_transcript (flat ?m) = Inl (no_attribute ''str'' ''keys'')"
    by code_simp
  show ?thesis
    unfolding f1 f2 v1 v2 by simp
qed

text \<open>
  For every transcript mapping \<open>m\<close> that has no field named \<^verbatim>\<open>transcript\<close>, and every outer
  mapping that holds \<open>m\<close> under the key \<^verbatim>\<open>transcript\<close> (next to any other keys),
  \<open>format_transcript\<close> and \<open>validate_transcript\<close> give the same result on the outer mapping as
  on \<open>m\<close> itself.
\<close>

lemma wrapped_flat_agree:
  assumes "map_of outer ''transcript'' = Some (PDict (flat m))"
    and "''transcript'' \<notin> fst ` set m"
  shows "format_transcript outer = format_transcript (flat m) \<and>
         validate_transcript outer = validate_transcript (flat m)"
  using unwrapped_outer[OF assms(1)] unwrapped_flat[OF assms(2)]
  by (simp add: format_transcript_def validate_transcript_def)

lemma wrapped_flat_agree_witness:
  "map_of [(''metadata'', PDict [(''candidate_id'', PStr ''C-1'')]),
           (''transcript'', PDict (flat [(''interviewer'', ''Q?''), (''candidate'', ''A.'')]))]
     ''transcript'' = Some (PDict (flat [(''interviewer'', ''Q?''), (''candidate'', ''A.'')])) \<and>
   ''transcript'' \<notin> fst ` set [(''interviewer'', ''Q?''), (''candidate'', ''A.'')] \<and>
   format_transcript
     [(''metadata'', PDict [(''candidate_id'', PStr ''C-1'')]),
      (''transcript'', PDict (flat [(''interviewer'', ''Q?''), (''candidate'', ''A.'')]))] =
     format_transcript (flat [(''interviewer'', ''Q?''), (''candidate'', ''A.'')]) \<and>
   validate_transcript
     [(''metadata'', PDict [(''candidate_id'', PStr ''C-1'')]),
      (''transcript'', PDict (flat [(''interviewer'', ''Q?''), (''candidate'', ''A.'')]))] =
     validate_transcript (flat [(''interviewer'', ''Q?''), (''candidate'', ''A.'')])"
proof -
  let ?m = "[(''interviewer'', ''Q?''), (''candidate'', ''A.'')]"
  let ?outer = "[(''metadata'', PDict [(''candidate_id'', PStr ''C-1'')]),
                 (''transcript'', PDict (flat ?m))]"
  have a: "map_of ?outer ''transcript'' = Some (PDict (flat ?m))"
    by simp
  have b: "''transcript'' \<notin> fst ` set ?m"
    by simp
  show ?thesis
    using wrapped_flat_agree[OF a b] a b by simp
qed
section \<open>The transcript normalizer\<close>

lemma sort_key_fn_eq: "sort_key_fn k = (role_rank k, k)"
  by (simp add: sort_key_fn_def role_rank_def mentions_def)

lemma role_eq: "role k = role_label k"
  by (simp add: role_def role_label_def role_rank_def mentions_def)

lemma map_insort_key:
  "map g (insort_key (\<lambda>x. f (g x)) x xs) = insort_key f (g x) (map g xs)"
  by (induction xs) simp_all

lemma map_sort_key:
  "map g (sort_key (\<lambda>x. f (g x)) xs) = sort_key f (map g xs)"
  by (induction xs) (simp_all add: map_insort_key)

lemma sort_key_unique:
  assumes "inj_on g (set xs)" "distinct xs" "distinct ys" "set xs = set ys"
  shows "sort_key g xs = sort_key g ys"
proof -
  have "map g (sort_key g xs) = map g (sort_key g ys)"
  proof (rule sorted_distinct_set_unique)
    show "sorted (map g (sort_key g xs))" by simp
    show "sorted (map g (sort_key g ys))" by simp
    show "distinct (map g (sort_key g xs))"
      using assms by (simp add: distinct_map)
    show "distinct (map g (sort_key g ys))"
      using assms by (simp add: distinct_map)
    show "set (map g (sort_key g xs)) = set (map g (sort_key g ys))"
      using assms by simp
  qed
  moreover have "inj_on g (set (sort_key g xs) \<union> set (sort_key g ys))"
    using assms by simp
  ultimately show ?thesis
    using inj_on_map_eq_map by blast
qed

lemma render_lines_total:
  assumes "set ks \<subseteq> set (keys d)"
  shows "render_lines d ks = Inr (map (\<lambda>k. role k @ '': '' @ entry_text d k) ks)"
  using assms
proof (induction ks)
  case Nil
  then show ?case by simp
next
  case (Cons k ks)
  then have "k \<in> fst ` set d"
    by (simp add: keys_def)
  then obtain v where "map_of d k = Some v"
    by (cases "map_of d k") (auto simp: map_of_eq_None_iff)
  with Cons show ?case
    by (simp add: getitem_def entry_text_def)
qed

lemma format_transcript_dict:
  assumes "unwrapped obj = PDict d"
  shows "format_transcript obj =
           Inr (join [CHR 0x0A, CHR 0x0A]
                  (map (\<lambda>k. role k @ '': '' @ entry_text d k) (sort_key sort_key_fn (keys d))))"
  using assms render_lines_total[of "sort_key sort_key_fn (keys d)" d]
  by (simp add: format_transcript_def)

lemma entry_text_flat:
  assumes "distinct (map fst m)" "kv \<in> set m"
  shows "entry_text (flat m) (fst kv) = snd kv"
proof -
  from assms have "map_of m (fst kv) = Some (snd kv)"
    by simp
  then show ?thesis
    by (simp add: entry_text_def map_of_flat)
qed

lemma format_transcript_flat:
  assumes "unwrapped obj = PDict (flat m)" and "distinct (map fst m)"
  shows "format_transcript obj = Inr (format_reference m)"
proof -
  let ?g = "\<lambda>kv. (role_rank (fst kv), fst kv)"
  have keys: "sort_key sort_key_fn (keys (flat m)) = map fst (sort_key ?g m)"
    using map_sort_key[of fst "\<lambda>k. (role_rank k, k)" m]
    by (simp add: keys_flat sort_key_fn_eq[abs_def])
  have lines: "map (\<lambda>k. role k @ '': '' @ entry_text (flat m) k) (map fst (sort_key ?g m)) =
        map (\<lambda>kv. role_label (fst kv) @ '': '' @ snd kv) (sort_key ?g m)"
    using entry_text_flat[OF assms(2)] by (simp add: role_eq)
  have "format_transcript obj =
          Inr (join [CHR 0x0A, CHR 0x0A]
                 (map (\<lambda>k. role k @ '': '' @ entry_text (flat m) k) (map fst (sort_key ?g m))))"
    using format_transcript_dict[OF assms(1)] by (simp only: keys)
  then show ?thesis
    unfolding lines format_reference_def .
qed

lemma format_reference_order:
  assumes "distinct (map fst m)" "distinct (map fst m')" "set m' = set m"
  shows "format_reference m' = format_reference m"
proof -
  let ?g = "\<lambda>kv. (role_rank (fst kv), fst kv)"
  have "inj_on fst (set m')" "distinct m'" "distinct m"
    using assms by (simp_all add: distinct_map)
  then have "inj_on ?g (set m')"
    by (auto simp: inj_on_def)
  then have "sort_key ?g m' = sort_key ?g m"
    using \<open>distinct m'\<close> \<open>distinct m\<close> assms(3) by (rule sort_key_unique)
  then show ?thesis
    by (simp add: format_reference_def)
qed

text \<open>
  C5. On the flat transcript mapping with the fields \<^verbatim>\<open>interviewer\<close> and \<^verbatim>\<open>transcript\<close> the
  normalizer is not total and does not give the reference rendering: it takes the text
  of the field \<^verbatim>\<open>transcript\<close> for the transcript and raises \<^verbatim>\<open>AttributeError\<close>, where the
  reference definition renders the two lines \<^verbatim>\<open>Interviewer: Q?\<close> and \<^verbatim>\<open>Candidate: A.\<close>.
\<close>

theorem format_transcript_raises_on_flat_mapping:
  "format_transcript (flat [(''interviewer'', ''Q?''), (''transcript'', ''A.'')]) =
     Inl (no_attribute ''str'' ''keys'') \<and>
   format_reference [(''interviewer'', ''Q?''), (''transcript'', ''A.'')] =
     ''Interviewer: Q?'' @ [CHR 0x0A, CHR 0x0A] @ ''Candidate: A.''"
  by code_simp

text \<open>
  For every transcript mapping \<open>m\<close> that \<open>format_transcript\<close> examines (a flat mapping with
  no field named \<^verbatim>\<open>transcript\<close>, or the mapping under the key \<^verbatim>\<open>transcript\<close>) the result
  is the reference rendering: the entries in the order of (role rank, key) with ranks 0
  for interviewer, 1 for candidate and 2 for other keys, each as a line
  \<^verbatim>\<open>Role: text\<close>, joined by blank lines. The rendering depends on the entries only and
  not on their order; on such a mapping the normalizer never raises, and the empty
  mapping is rendered as the empty text; on the example of the specification
  \<^verbatim>\<open>Interviewer: question\<close> comes before \<^verbatim>\<open>Candidate: answer\<close> and
  \<^verbatim>\<open>Interviewer: question 2\<close> before \<^verbatim>\<open>Candidate: answer 2\<close>.
\<close>

lemma format_transcript_reference:
  assumes "unwrapped obj = PDict (flat m)" and "distinct (map fst m)"
  shows "format_transcript obj = Inr (format_reference m) \<and>
         (\<forall>obj' m'. unwrapped obj' = PDict (flat m') \<and> distinct (map fst m') \<and> set m' = set m
            \<longrightarrow> format_transcript obj' = format_transcript obj) \<and>
         format_transcript [] = Inr [] \<and>
         (\<exists>out. format_transcript (flat ordering_example) = Inr out \<and>
            str_index ''Interviewer: question'' out = Some 0 \<and>
            str_index ''Candidate: answer'' out = Some 48 \<and>
            str_index ''Interviewer: question 2'' out = Some 23 \<and>
            str_index ''Candidate: answer 2'' out = Some 67)"
proof -
  have a: "format_transcript obj = Inr (format_reference m)"
    using assms by (rule format_transcript_flat)
  have b: "format_transcript obj' = format_transcript obj"
    if "unwrapped obj' = PDict (flat m')" "distinct (map fst m')" "set m' = set m" for obj' m'
    using format_transcript_flat[OF that(1,2)] format_reference_order[OF assms(2) that(2,3)] a
    by simp
  have c: "format_transcript [] = Inr []"
    by (simp add: format_transcript_def unwrapped_def keys_def)
  have d: "format_transcript (flat ordering_example) =
             Inr (''Interviewer: question'' @ [CHR 0x0A, CHR 0x0A] @
                  ''Interviewer: question 2'' @ [CHR 0x0A, CHR 0x0A] @
                  ''Candidate: answer'' @ [CHR 0x0A, CHR 0x0A] @ ''Candidate: answer 2'')"
    by code_simp
  have e: "str_index ''Interviewer: question''
             (''Interviewer: question'' @ [CHR 0x0A, CHR 0x0A] @
              ''Interviewer: question 2'' @ [CHR 0x0A, CHR 0x0A] @
              ''Candidate: answer'' @ [CHR 0x0A, CHR 0x0A] @ ''Candidate: answer 2'') = Some 0"
    by code_simp
  have f: "str_index ''Candidate: answer''
             (''Interviewer: question'' @ [CHR 0x0A, CHR 0x0A] @
              ''Interviewer: question 2'' @ [CHR 0x0A, CHR 0x0A] @
              ''Candidate: answer'' @ [CHR 0x0A, CHR 0x0A] @ ''Candidate: answer 2'') = Some 48"
    by code_simp
  have g: "str_index ''Interviewer: question 2''
             (''Interviewer: question'' @ [CHR 0x0A, CHR 0x0A] @
              ''Interviewer: question 2'' @ [CHR 0x0A, CHR 0x0A] @
              ''Candidate: answer'' @ [CHR 0x0A, CHR 0x0A] @ ''Candidate: answer 2'') = Some 23"
    by code_simp
  have h: "str_index ''Candidate: answer 2''
             (''Interviewer: question'' @ [CHR 0x0A, CHR 0x0A] @
              ''Interviewer: question 2'' @ [CHR 0x0A, CHR 0x0A] @
              ''Candidate: answer'' @ [CHR 0x0A, CHR 0x0A] @ ''Candidate: answer 2'') = Some 67"
    by code_simp
  from a b c d e f g h show ?thesis
    by blast
qed

lemma format_transcript_reference_witness:
  "unwrapped (flat ordering_example) = PDict (flat ordering_example) \<and>
   distinct (map fst ordering_example) \<and>
   format_transcript (flat ordering_example) = Inr (format_reference ordering_example) \<and>
   format_transcript [(''transcript'', PDict (flat (rev ordering_example)))] =
     format_transcript (flat ordering_example)"
proof -
  have h1: "unwrapped (flat ordering_example) = PDict (flat ordering_example)"
    by (rule unwrapped_flat) (simp add: ordering_example_def)
  have h2: "distinct (map fst ordering_example)"
    by (simp add: ordering_example_def)
  have h3: "unwrapped [(''transcript'', PDict (flat (rev ordering_example)))] =
              PDict (flat (rev ordering_example))"
    by (simp add: unwrapped_def)
  have h4: "distinct (map fst (rev ordering_example))"
    by (simp add: ordering_example_def)
  have h5: "set (rev ordering_example) = set ordering_example"
    by simp
  show ?thesis
    using format_transcript_reference[OF h1 h2] h1 h2 h3 h4 h5 by blast
qed

text \<open>
  C10. \<open>format_transcript\<close> renders the entry of every key that does not contain
  \<^verbatim>\<open>interviewer\<close> (in any letter case) with the label \<^verbatim>\<open>Candidate\<close>, also when the key
  contains \<^verbatim>\<open>candidate\<close> neither: such a key has the sort key \<open>(2, key)\<close>, so its line comes
  after the line of every interviewer and candidate key, and there is no third label.
\<close>

theorem other_keys_labelled_candidate:
  assumes "unwrapped obj = PDict d"
  shows "\<exists>ks. ks = sort_key sort_key_fn (keys d) \<and>
           format_transcript obj =
             Inr (join [CHR 0x0A, CHR 0x0A]
                    (map (\<lambda>k. (if mentions ''interviewer'' k then ''Interviewer'' else ''Candidate'')
                               @ '': '' @ entry_text d k) ks)) \<and>
           (\<forall>k. \<not> mentions ''interviewer'' k \<and> \<not> mentions ''candidate'' k
                  \<longrightarrow> sort_key_fn k = (2, k) \<and> role k = ''Candidate'') \<and>
           (\<forall>i j. i < length ks \<and> j < length ks \<and>
                    (mentions ''interviewer'' (ks ! i) \<or> mentions ''candidate'' (ks ! i)) \<and>
                    \<not> mentions ''interviewer'' (ks ! j) \<and> \<not> mentions ''candidate'' (ks ! j)
                  \<longrightarrow> i < j)"
proof -
  define ks where "ks = sort_key sort_key_fn (keys d)"
  have fmt: "format_transcript obj =
               Inr (join [CHR 0x0A, CHR 0x0A]
                      (map (\<lambda>k. (if mentions ''interviewer'' k then ''Interviewer''
                                  else ''Candidate'') @ '': '' @ entry_text d k) ks))"
    using format_transcript_dict[OF assms]
    by (simp add: ks_def role_def[abs_def] mentions_def)
  have other: "sort_key_fn k = (2, k) \<and> role k = ''Candidate''"
    if "\<not> mentions ''interviewer'' k \<and> \<not> mentions ''candidate'' k" for k
    using that by (simp add: sort_key_fn_def role_def mentions_def)
  have order: "i < j"
    if "i < length ks" "j < length ks"
      and early: "mentions ''interviewer'' (ks ! i) \<or> mentions ''candidate'' (ks ! i)"
      and late: "\<not> mentions ''interviewer'' (ks ! j)" "\<not> mentions ''candidate'' (ks ! j)"
    for i j
  proof (rule ccontr)
    assume "\<not> i < j"
    then have "j \<le> i" by simp
    have "sorted (map sort_key_fn ks)"
      by (simp add: ks_def)
    then have "map sort_key_fn ks ! j \<le> map sort_key_fn ks ! i"
      using \<open>j \<le> i\<close> that(1) by (simp add: sorted_iff_nth_mono)
    then have "sort_key_fn (ks ! j) \<le> sort_key_fn (ks ! i)"
      using that(1,2) by simp
    moreover have "fst (sort_key_fn (ks ! j)) = 2"
      using late by (simp add: sort_key_fn_eq role_rank_def)
    moreover have "fst (sort_key_fn (ks ! i)) \<le> 1"
      using early by (auto simp: sort_key_fn_eq role_rank_def)
    ultimately show False
      by (cases "sort_key_fn (ks ! j)"; cases "sort_key_fn (ks ! i)") auto
  qed
  from fmt other order show ?thesis
    unfolding ks_def[symmetric] by blast
qed

theorem other_keys_labelled_candidate_witness:
  "unwrapped (flat [(''notes'', ''n''), (''Candidate'', ''a''), (''INTERVIEWER_1'', ''q'')]) =
     PDict (flat [(''notes'', ''n''), (''Candidate'', ''a''), (''INTERVIEWER_1'', ''q'')]) \<and>
   format_transcript (flat [(''notes'', ''n''), (''Candidate'', ''a''), (''INTERVIEWER_1'', ''q'')]) =
     Inr (''Interviewer: q'' @ [CHR 0x0A, CHR 0x0A] @ ''Candidate: a'' @ [CHR 0x0A, CHR 0x0A] @
          ''Candidate: n'') \<and>
   sort_key_fn ''notes'' = (2, ''notes'') \<and> role ''notes'' = ''Candidate''"
proof -
  let ?m = "[(''notes'', ''n''), (''Candidate'', ''a''), (''INTERVIEWER_1'', ''q'')]"
  have h: "unwrapped (flat ?m) = PDict (flat ?m)"
    by (rule unwrapped_flat) simp
  have ks: "sort_key sort_key_fn (keys (flat ?m)) = [''INTERVIEWER_1'', ''Candidate'', ''notes'']"
    by code_simp
  have ms: "mentions ''interviewer'' ''INTERVIEWER_1''" "\<not> mentions ''interviewer'' ''Candidate''"
    "\<not> mentions ''interviewer'' ''notes''" "\<not> mentions ''candidate'' ''notes''"
    by code_simp+
  have tx: "entry_text (flat ?m) ''INTERVIEWER_1'' = ''q''" "entry_text (flat ?m) ''Candidate'' = ''a''"
    "entry_text (flat ?m) ''notes'' = ''n''"
    by (simp_all add: entry_text_def flat_def)
  from other_keys_labelled_candidate[OF h] show ?thesis
    using h by (auto simp: ks ms tx)
qed
section \<open>The generation stage runner\<close>

lemma calls_logger [simp]: "calls (logger l m w) = calls w"
  by (simp add: logger_def)

lemma log_logger [simp]: "log (logger l m w) = log w @ [(l, m)]"
  by (simp add: logger_def)

lemma retry_loop_success:
  assumes "\<And>i. i < n \<Longrightarrow> isl (respond ch (calls w @ replicate i (chain_name ch, inp)) inp)"
    and "respond ch (calls w @ replicate n (chain_name ch, inp)) inp = Inr r"
    and "attempt + int n \<le> maxr"
  shows "fst (retry_loop ch inp sn maxr attempt w) = Inr (Some r) \<and>
         calls (snd (retry_loop ch inp sn maxr attempt w)) =
           calls w @ replicate (Suc n) (chain_name ch, inp)"
  using assms
proof (induction n arbitrary: attempt w)
  case 0
  then show ?case
    by (subst (1 2) retry_loop.simps) (simp add: invoke_def)
next
  case (Suc n)
  let ?c = "(chain_name ch, inp)"
  from Suc.prems(1)[of 0] obtain e where e: "respond ch (calls w) inp = Inl e"
    by (auto simp: isl_def)
  let ?w' = "logger INFO (Retrying sn)
               (logger WARNING (AttemptFailed sn attempt e)
                  ((logger INFO (Attempt sn attempt maxr) w)\<lparr>calls := calls w @ [?c]\<rparr>))"
  have step: "retry_loop ch inp sn maxr attempt w = retry_loop ch inp sn maxr (attempt + 1) ?w'"
    using Suc.prems(3) e by (subst retry_loop.simps) (simp add: invoke_def)
  have cw: "calls ?w' = calls w @ [?c]"
    by simp
  have "fst (retry_loop ch inp sn maxr (attempt + 1) ?w') = Inr (Some r) \<and>
        calls (snd (retry_loop ch inp sn maxr (attempt + 1) ?w')) =
          calls ?w' @ replicate (Suc n) ?c"
  proof (rule Suc.IH)
    fix i assume "i < n"
    then show "isl (respond ch (calls ?w' @ replicate i ?c) inp)"
      using Suc.prems(1)[of "Suc i"] by (simp add: cw)
  next
    show "respond ch (calls ?w' @ replicate n ?c) inp = Inr r"
      using Suc.prems(2) by (simp add: cw)
  next
    show "attempt + 1 + int n \<le> maxr"
      using Suc.prems(3) by simp
  qed
  then show ?case
    by (simp add: step cw)
qed

lemma retry_loop_exhausted:
  assumes "\<And>i. i < Suc n \<Longrightarrow> respond ch (calls w @ replicate i (chain_name ch, inp)) inp = Inl (errs i)"
    and "attempt + int n = maxr"
  shows "fst (retry_loop ch inp sn maxr attempt w) = Inl (errs n) \<and>
         calls (snd (retry_loop ch inp sn maxr attempt w)) =
           calls w @ replicate (Suc n) (chain_name ch, inp) \<and>
         last (log (snd (retry_loop ch inp sn maxr attempt w))) = (ERROR, AllAttemptsFailed sn)"
  using assms
proof (induction n arbitrary: attempt w errs)
  case 0
  from "0.prems"(1)[of 0] have "respond ch (calls w) inp = Inl (errs 0)"
    by simp
  with "0.prems"(2) show ?case
    by (subst (1 2 3) retry_loop.simps) (simp add: invoke_def)
next
  case (Suc n)
  let ?c = "(chain_name ch, inp)"
  from Suc.prems(1)[of 0] have e: "respond ch (calls w) inp = Inl (errs 0)"
    by simp
  let ?w' = "logger INFO (Retrying sn)
               (logger WARNING (AttemptFailed sn attempt (errs 0))
                  ((logger INFO (Attempt sn attempt maxr) w)\<lparr>calls := calls w @ [?c]\<rparr>))"
  have step: "retry_loop ch inp sn maxr attempt w = retry_loop ch inp sn maxr (attempt + 1) ?w'"
    using Suc.prems(2) e by (subst retry_loop.simps) (simp add: invoke_def)
  have cw: "calls ?w' = calls w @ [?c]"
    by simp
  have "fst (retry_loop ch inp sn maxr (attempt + 1) ?w') = Inl ((errs \<circ> Suc) n) \<and>
        calls (snd (retry_loop ch inp sn maxr (attempt + 1) ?w')) =
          calls ?w' @ replicate (Suc n) ?c \<and>
        last (log (snd (retry_loop ch inp sn maxr (attempt + 1) ?w'))) =
          (ERROR, AllAttemptsFailed sn)"
  proof (rule Suc.IH)
    fix i assume "i < Suc n"
    then show "respond ch (calls ?w' @ replicate i ?c) inp = Inl ((errs \<circ> Suc) i)"
      using Suc.prems(1)[of "Suc i"] by (simp add: cw)
  next
    show "attempt + 1 + int n = maxr"
      using Suc.prems(2) by simp
  qed
  then show ?case
    by (simp add: step cw)
qed

text \<open>
  C2, as stated, at a backend whose every call fails with the same error: what
  \<open>invoke_with_retry\<close> raises for the stage \<^verbatim>\<open>Analyst\<close> and for the stage \<^verbatim>\<open>Synthesis\<close> is the
  same value, the error of the backend, so what is raised does not name the stage.
\<close>

theorem raised_error_without_stage_counterexample:
  "fst (invoke_with_retry (example_pipeline True 3)
          (failing_chain AnalystChain :: AnalysisReport chain) (TranscriptInput ''t'')
          ''Analyst'' empty_world) = Inl (OtherError ''boom'') \<and>
   fst (invoke_with_retry (example_pipeline True 3)
          (failing_chain AnalystChain :: AnalysisReport chain) (TranscriptInput ''t'')
          ''Synthesis'' empty_world) = Inl (OtherError ''boom'')"
  by code_simp

text \<open>
  C2, amended. For every stage invocation with \<open>max_retries \<ge> 1\<close>: if the backend call
  fails on the attempts \<open>1..k-1\<close> and succeeds on attempt \<open>k \<le> max_retries\<close>, the stage
  runner returns the result of attempt \<open>k\<close> without raising, after exactly \<open>k\<close> calls; if
  all \<open>max_retries\<close> attempts fail, it raises the error of the last attempt itself,
  unchanged, after exactly \<open>max_retries\<close> calls. The stage name is not part of what is
  raised; it is written to the log, whose last record is then the error record
  \<^verbatim>\<open>[stage] All attempts failed\<close>.
\<close>

theorem invoke_with_retry_outcomes:
  assumes "1 \<le> max_retries self"
  shows "(\<forall>k r. 1 \<le> k \<and> int k \<le> max_retries self \<and>
            (\<forall>i<k - 1. isl (respond ch (calls w @ replicate i (chain_name ch, inp)) inp)) \<and>
            respond ch (calls w @ replicate (k - 1) (chain_name ch, inp)) inp = Inr r
          \<longrightarrow> fst (invoke_with_retry self ch inp stage_name w) = Inr (Some r) \<and>
              calls (snd (invoke_with_retry self ch inp stage_name w)) =
                calls w @ replicate k (chain_name ch, inp)) \<and>
         (\<forall>errs. (\<forall>i<nat (max_retries self).
                    respond ch (calls w @ replicate i (chain_name ch, inp)) inp = Inl (errs i))
          \<longrightarrow> fst (invoke_with_retry self ch inp stage_name w) =
                Inl (errs (nat (max_retries self) - 1)) \<and>
              calls (snd (invoke_with_retry self ch inp stage_name w)) =
                calls w @ replicate (nat (max_retries self)) (chain_name ch, inp) \<and>
              last (log (snd (invoke_with_retry self ch inp stage_name w))) =
                (ERROR, AllAttemptsFailed stage_name))"
proof (intro conjI allI impI)
  fix k r
  assume h: "1 \<le> k \<and> int k \<le> max_retries self \<and>
            (\<forall>i<k - 1. isl (respond ch (calls w @ replicate i (chain_name ch, inp)) inp)) \<and>
            respond ch (calls w @ replicate (k - 1) (chain_name ch, inp)) inp = Inr r"
  then have "1 + int (k - 1) \<le> max_retries self"
    by simp
  with h have "fst (retry_loop ch inp stage_name (max_retries self) 1 w) = Inr (Some r) \<and>
        calls (snd (retry_loop ch inp stage_name (max_retries self) 1 w)) =
          calls w @ replicate (Suc (k - 1)) (chain_name ch, inp)"
    by (intro retry_loop_success) auto
  with h show "fst (invoke_with_retry self ch inp stage_name w) = Inr (Some r)"
    and "calls (snd (invoke_with_retry self ch inp stage_name w)) =
           calls w @ replicate k (chain_name ch, inp)"
    by (simp_all add: invoke_with_retry_def)
next
  fix errs
  assume h: "\<forall>i<nat (max_retries self).
               respond ch (calls w @ replicate i (chain_name ch, inp)) inp = Inl (errs i)"
  define n where "n = nat (max_retries self) - 1"
  have n: "nat (max_retries self) = Suc n" "1 + int n = max_retries self"
    using assms by (simp_all add: n_def)
  have "fst (retry_loop ch inp stage_name (max_retries self) 1 w) = Inl (errs n) \<and>
        calls (snd (retry_loop ch inp stage_name (max_retries self) 1 w)) =
          calls w @ replicate (Suc n) (chain_name ch, inp) \<and>
        last (log (snd (retry_loop ch inp stage_name (max_retries self) 1 w))) =
          (ERROR, AllAttemptsFailed stage_name)"
    using h n by (intro retry_loop_exhausted) auto
  then show "fst (invoke_with_retry self ch inp stage_name w) =
               Inl (errs (nat (max_retries self) - 1))"
    and "calls (snd (invoke_with_retry self ch inp stage_name w)) =
           calls w @ replicate (nat (max_retries self)) (chain_name ch, inp)"
    and "last (log (snd (invoke_with_retry self ch inp stage_name w))) =
           (ERROR, AllAttemptsFailed stage_name)"
    by (simp_all add: invoke_with_retry_def n n_def[symmetric])
qed

theorem invoke_with_retry_outcomes_witness:
  "1 \<le> max_retries (example_pipeline True 3) \<and>
   fst (invoke_with_retry (example_pipeline True 3) (flaky_chain AnalystChain 2 no_snippets)
          (TranscriptInput ''t'') ''Analyst'' empty_world) = Inr (Some no_snippets) \<and>
   calls (snd (invoke_with_retry (example_pipeline True 3)
                 (flaky_chain AnalystChain 2 no_snippets)
                 (TranscriptInput ''t'') ''Analyst'' empty_world)) =
     replicate 3 (AnalystChain, TranscriptInput ''t'') \<and>
   fst (invoke_with_retry (example_pipeline True 3)
          (failing_chain SynthesisChain :: FinalReport chain)
          (AnalysisReportInput no_snippets) ''Synthesis'' empty_world) =
     Inl (OtherError ''boom'')"
proof -
  let ?p = "example_pipeline True 3"
  have m: "1 \<le> max_retries ?p" "max_retries ?p = 3"
    by (simp_all add: example_pipeline_def init_def)
  let ?ch = "flaky_chain AnalystChain 2 no_snippets"
  have ok: "1 \<le> (3::nat) \<and> int 3 \<le> max_retries ?p \<and>
            (\<forall>i<3 - 1. isl (respond ?ch (calls empty_world @
                 replicate i (chain_name ?ch, TranscriptInput ''t'')) (TranscriptInput ''t''))) \<and>
            respond ?ch (calls empty_world @
                 replicate (3 - 1) (chain_name ?ch, TranscriptInput ''t'')) (TranscriptInput ''t'') =
              Inr no_snippets"
    by (simp add: m flaky_chain_def empty_world_def)
  let ?fc = "failing_chain SynthesisChain :: FinalReport chain"
  have bad: "\<forall>i<nat (max_retries ?p).
               respond ?fc (calls empty_world @
                 replicate i (chain_name ?fc, AnalysisReportInput no_snippets))
                 (AnalysisReportInput no_snippets) = Inl ((\<lambda>i. OtherError ''boom'') i)"
    by (simp add: failing_chain_def)
  from invoke_with_retry_outcomes[OF m(1), of ?ch empty_world "TranscriptInput ''t''" "''Analyst''"]
    ok
  have a: "fst (invoke_with_retry ?p ?ch (TranscriptInput ''t'') ''Analyst'' empty_world) =
             Inr (Some no_snippets) \<and>
           calls (snd (invoke_with_retry ?p ?ch (TranscriptInput ''t'') ''Analyst'' empty_world)) =
             calls empty_world @ replicate 3 (chain_name ?ch, TranscriptInput ''t'')"
    by blast
  from invoke_with_retry_outcomes[OF m(1), of ?fc empty_world "AnalysisReportInput no_snippets"
      "''Synthesis''", THEN conjunct2, THEN spec, of "\<lambda>i. OtherError ''boom''"] bad
  have b: "fst (invoke_with_retry ?p ?fc (AnalysisReportInput no_snippets) ''Synthesis''
                  empty_world) = Inl (OtherError ''boom'')"
    by simp
  from a b m(1) show ?thesis
    by (simp add: empty_world_def flaky_chain_def)
qed
section \<open>The phases of analyze\<close>

lemma calls_foldl_logger [simp]:
  "calls (foldl (\<lambda>w' x. logger l (f x) w') w xs) = calls w"
  by (induction xs arbitrary: w) simp_all

lemma input_check_calls [simp]: "calls (snd (input_check t w)) = calls w"
  by (simp add: input_check_def Let_def split: sum.splits prod.splits)

lemma quality_check_calls [simp]: "calls (snd (quality_check r w)) = calls w"
  by (simp add: quality_check_def Let_def split: option.splits prod.splits)

lemma cache_lookup_calls [simp]: "calls (snd (cache_lookup md5 self f uc w)) = calls w"
  by (simp add: cache_lookup_def Let_def split: option.splits)

lemma cache_store_calls [simp]: "calls (snd (snd (cache_store md5 self f r uc w))) = calls w"
  by (simp add: cache_store_def Let_def split: option.splits)

lemma cache_store_raises:
  "cache_store md5 self f r uc w = (Some e, self', w') \<Longrightarrow> self' = self"
  by (auto simp: cache_store_def Let_def split: option.splits if_splits)

lemma retry_loop_None_iff:
  "fst (retry_loop ch inp sn maxr attempt w) = Inr None \<longleftrightarrow> maxr < attempt"
proof (induction ch inp sn maxr attempt w rule: retry_loop.induct)
  case (1 ch inp sn maxr attempt w)
  show ?case
  proof (cases "maxr < attempt")
    case True
    then show ?thesis by (subst retry_loop.simps) simp
  next
    case False
    then show ?thesis
      using 1
      by (subst retry_loop.simps) (auto simp: Let_def split: prod.splits sum.splits)
  qed
qed

lemma retry_loop_calls:
  "\<exists>k. calls (snd (retry_loop ch inp sn maxr attempt w)) = calls w @ replicate k (chain_name ch, inp) \<and>
       (attempt \<le> maxr \<longrightarrow> 0 < k)"
proof (induction ch inp sn maxr attempt w rule: retry_loop.induct)
  case (1 ch inp sn maxr attempt w)
  show ?case
  proof (cases "maxr < attempt")
    case True
    then show ?thesis by (subst retry_loop.simps) simp
  next
    case False
    obtain out w1 where inv: "invoke ch inp (logger INFO (Attempt sn attempt maxr) w) = (out, w1)"
      by (cases "invoke ch inp (logger INFO (Attempt sn attempt maxr) w)")
    then have c1: "calls w1 = calls w @ [(chain_name ch, inp)]"
      by (auto simp: invoke_def)
    show ?thesis
    proof (cases out)
      case (Inr r)
      with False inv c1 show ?thesis
        by (subst retry_loop.simps) (auto intro: exI[of _ 1])
    next
      case (Inl e)
      show ?thesis
      proof (cases "attempt = maxr")
        case True
        with False inv c1 Inl show ?thesis
          by (subst retry_loop.simps) (auto simp: Let_def intro: exI[of _ 1])
      next
        case ne: False
        let ?w2 = "logger INFO (Retrying sn) (logger WARNING (AttemptFailed sn attempt e) w1)"
        from 1[OF False inv[symmetric] Inl refl ne]
        obtain k where "calls (snd (retry_loop ch inp sn maxr (attempt + 1) ?w2)) =
             calls ?w2 @ replicate k (chain_name ch, inp)"
          by auto
        then have "calls (snd (retry_loop ch inp sn maxr (attempt + 1) ?w2)) =
             calls w @ replicate (Suc k) (chain_name ch, inp)"
          by (simp add: c1 replicate_app_Cons_same)
        moreover have "retry_loop ch inp sn maxr attempt w = retry_loop ch inp sn maxr (attempt + 1) ?w2"
          using False inv Inl ne by (subst retry_loop.simps) (simp add: Let_def)
        ultimately show ?thesis
          by (auto intro: exI[of _ "Suc k"])
      qed
    qed
  qed
qed

lemma invoke_with_retry_calls:
  "\<exists>k. calls (snd (invoke_with_retry self ch inp sn w)) = calls w @ replicate k (chain_name ch, inp) \<and>
       (1 \<le> max_retries self \<longrightarrow> 0 < k)"
  unfolding invoke_with_retry_def by (rule retry_loop_calls)

lemma invoke_with_retry_None_iff:
  "fst (invoke_with_retry self ch inp sn w) = Inr None \<longleftrightarrow> max_retries self < 1"
  unfolding invoke_with_retry_def by (rule retry_loop_None_iff)

lemma retry_loop_result_last:
  "retry_loop ch inp sn maxr attempt w = (Inr (Some r), w') \<Longrightarrow>
     respond ch (butlast (calls w')) inp = Inr r"
proof (induction ch inp sn maxr attempt w rule: retry_loop.induct)
  case (1 ch inp sn maxr attempt w)
  from "1.prems" have le: "\<not> maxr < attempt"
    by (subst (asm) retry_loop.simps) (auto split: if_splits)
  obtain out w1 where inv: "invoke ch inp (logger INFO (Attempt sn attempt maxr) w) = (out, w1)"
    by (cases "invoke ch inp (logger INFO (Attempt sn attempt maxr) w)")
  then have c1: "calls w1 = calls w @ [(chain_name ch, inp)]"
    and out: "out = respond ch (calls w) inp"
    by (auto simp: invoke_def)
  show ?case
  proof (cases out)
    case (Inr r')
    with "1.prems" le inv have "r' = r" "w' = logger INFO (Success sn) w1"
      by (subst (asm) retry_loop.simps; simp)+
    with c1 out Inr show ?thesis
      by simp
  next
    case (Inl e)
    with "1.prems" le inv have ne: "attempt \<noteq> maxr"
      by (subst (asm) retry_loop.simps) (auto simp: Let_def split: if_splits)
    let ?w2 = "logger INFO (Retrying sn) (logger WARNING (AttemptFailed sn attempt e) w1)"
    from "1.prems" le inv Inl ne
    have "retry_loop ch inp sn maxr (attempt + 1) ?w2 = (Inr (Some r), w')"
      by (subst (asm) retry_loop.simps) (simp add: Let_def)
    with "1.IH"[OF le inv[symmetric] Inl refl ne] show ?thesis
      by simp
  qed
qed

lemma invoke_with_retry_result_last:
  "invoke_with_retry self ch inp sn w = (Inr (Some r), w') \<Longrightarrow>
     respond ch (butlast (calls w')) inp = Inr r"
  unfolding invoke_with_retry_def by (rule retry_loop_result_last)

lemma run_stages_Inr:
  assumes "run_stages self f w = (Inr r, w')"
  shows "\<exists>a report w1 w2 k1 k2.
           invoke_with_retry self (analyst_chain self) (TranscriptInput f) ''Analyst''
             (logger INFO RunningAnalyst w) = (Inr (Some a), w1) \<and>
           invoke_with_retry self (synthesis_chain self) (AnalysisReportInput a) ''Synthesis''
             (logger INFO RunningSynthesis
                (logger INFO (AnalysisComplete (length (snippets a))) w1)) =
             (Inr (Some report), w2) \<and>
           r = Some report \<and> 0 < k1 \<and> 0 < k2 \<and>
           calls w' = calls w @ replicate k1 (chain_name (analyst_chain self), TranscriptInput f) @
                        replicate k2 (chain_name (synthesis_chain self), AnalysisReportInput a) \<and>
           respond (synthesis_chain self) (butlast (calls w')) (AnalysisReportInput a) =
             Inr report"
proof -
  let ?A = "invoke_with_retry self (analyst_chain self) (TranscriptInput f) ''Analyst''
              (logger INFO RunningAnalyst w)"
  obtain ra w1 where A: "?A = (ra, w1)"
    by (cases ?A)
  with assms obtain a where a: "ra = Inr (Some a)"
    by (cases ra) (auto simp: run_stages_def split: option.splits)
  let ?w2 = "logger INFO RunningSynthesis (logger INFO (AnalysisComplete (length (snippets a))) w1)"
  let ?S = "invoke_with_retry self (synthesis_chain self) (AnalysisReportInput a) ''Synthesis'' ?w2"
  obtain rs w3 where S: "?S = (rs, w3)"
    by (cases ?S)
  with assms A a have rs: "rs = Inr r" and w': "w' = logger INFO SynthesisComplete w3"
    by (auto simp: run_stages_def Let_def split: sum.splits)
  from A a have "fst ?A \<noteq> Inr None"
    by simp
  then have mr: "1 \<le> max_retries self"
    by (simp add: invoke_with_retry_None_iff)
  then have "fst ?S \<noteq> Inr None"
    by (simp add: invoke_with_retry_None_iff)
  with S rs obtain report where r: "r = Some report"
    by (cases r) auto
  from invoke_with_retry_calls[of self "analyst_chain self" "TranscriptInput f" "''Analyst''"
      "logger INFO RunningAnalyst w"] A mr
  obtain k1 where k1: "0 < k1"
    "calls w1 = calls w @ replicate k1 (chain_name (analyst_chain self), TranscriptInput f)"
    by auto
  from invoke_with_retry_calls[of self "synthesis_chain self" "AnalysisReportInput a"
      "''Synthesis''" ?w2] S mr
  obtain k2 where k2: "0 < k2"
    "calls w3 = calls w1 @ replicate k2 (chain_name (synthesis_chain self), AnalysisReportInput a)"
    by auto
  from S rs r have "respond (synthesis_chain self) (butlast (calls w3)) (AnalysisReportInput a) =
                      Inr report"
    by (intro invoke_with_retry_result_last) simp
  with A a S rs r k1 k2 w' show ?thesis
    by (intro exI[of _ a] exI[of _ report] exI[of _ w1] exI[of _ w3] exI[of _ k1] exI[of _ k2])
      simp
qed

lemma analyze_raises_self:
  assumes "analyze md5 self t vi vo uc w = (Inl e, self', w')"
  shows "self' = self"
  using assms
  unfolding analyze_def Let_def
  by (auto split: prod.splits option.splits sum.splits if_splits dest: cache_store_raises)

lemma cache_lookup_hit:
  assumes "cache_lookup md5 self f uc w = (Inr (Some r), w')"
  shows "uc \<and> enable_cache self \<and>
         (\<exists>c. cache self = Some c \<and> map_of c (get_cache_key md5 f) = Some r) \<and>
         calls w' = calls w"
  using assms by (auto simp: cache_lookup_def Let_def split: if_splits option.splits)

lemma cache_lookup_miss:
  assumes "cache_lookup md5 self f uc w = (Inr None, w')"
  shows "calls w' = calls w \<and>
         (uc \<and> enable_cache self \<longrightarrow>
            (\<exists>c. cache self = Some c \<and> map_of c (get_cache_key md5 f) = None))"
  using assms by (auto simp: cache_lookup_def Let_def split: if_splits option.splits)

lemma cache_store_ok:
  assumes "cache_store md5 self f r uc w = (None, self', w')"
  shows "calls w' = calls w \<and>
         (if uc \<and> enable_cache self
          then \<exists>c. cache self = Some c \<and>
                 self' = self\<lparr>cache := Some (AList.update (get_cache_key md5 f) r c)\<rparr>
          else self' = self)"
  using assms by (auto simp: cache_store_def Let_def split: if_splits option.splits)

lemma input_check_passed:
  assumes "(if vi then input_check t w else (None, w)) = (None, w1)"
  shows "calls w1 = calls w \<and> (vi \<longrightarrow> (\<exists>msg. validate_transcript t = Inr (True, msg)))"
proof (cases vi)
  case False
  with assms show ?thesis by simp
next
  case True
  with assms have ic: "input_check t w = (None, w1)"
    by simp
  then have "calls w1 = calls w"
    using input_check_calls[of t w] by simp
  moreover from ic have "\<exists>msg. validate_transcript t = Inr (True, msg)"
    by (auto simp: input_check_def Let_def split: sum.splits prod.splits if_splits)
  ultimately show ?thesis by simp
qed

lemma quality_check_passed:
  assumes "(if vo then quality_check r w else (None, w)) = (x, w1)"
  shows "calls w1 = calls w"
  using assms quality_check_calls[of r w] by (cases vo) auto

lemma analyze_returns:
  assumes "analyze md5 self t vi vo uc w = (Inr r, self', w')"
  shows "\<exists>f. format_transcript t = Inr f \<and>
           (vi \<longrightarrow> (\<exists>msg. validate_transcript t = Inr (True, msg))) \<and>
           ((uc \<and> enable_cache self \<and>
             (\<exists>c. cache self = Some c \<and> map_of c (get_cache_key md5 f) = Some r) \<and>
             self' = self \<and> calls w' = calls w) \<or>
            (\<exists>w3 w4. calls w3 = calls w \<and> run_stages self f w3 = (Inr r, w4) \<and>
               calls w' = calls w4 \<and>
               (if uc \<and> enable_cache self
                then \<exists>c. cache self = Some c \<and> map_of c (get_cache_key md5 f) = None \<and>
                       self' = self\<lparr>cache := Some (AList.update (get_cache_key md5 f) r c)\<rparr>
                else self' = self)))"
proof -
  let ?w0 = "logger INFO Banner (logger INFO StartingPipeline (logger INFO Banner w))"
  obtain x1 w1 where ic: "(if vi then input_check t ?w0 else (None, ?w0)) = (x1, w1)"
    by (cases "if vi then input_check t ?w0 else (None, ?w0)")
  with assms have x1: "x1 = None"
    by (cases x1) (auto simp: analyze_def Let_def)
  from input_check_passed[OF ic[unfolded x1]]
  have c1: "calls w1 = calls w" and v: "vi \<longrightarrow> (\<exists>msg. validate_transcript t = Inr (True, msg))"
    by simp_all
  from assms ic x1 obtain f where f: "format_transcript t = Inr f"
    by (cases "format_transcript t") (auto simp: analyze_def Let_def)
  let ?w2 = "logger INFO (TranscriptFormatted (length f)) w1"
  obtain lk w3 where lk: "cache_lookup md5 self f uc ?w2 = (lk, w3)"
    by (cases "cache_lookup md5 self f uc ?w2")
  from assms ic x1 f lk obtain hit where lkr: "lk = Inr hit"
    by (cases lk) (auto simp: analyze_def Let_def)
  show ?thesis
  proof (cases hit)
    case (Some cached)
    with assms ic x1 f lk lkr have "r = cached" "self' = self" "w' = w3"
      by (auto simp: analyze_def Let_def)
    with cache_lookup_hit[OF lk[unfolded lkr Some]] c1 f v show ?thesis
      by auto
  next
    case None
    from cache_lookup_miss[OF lk[unfolded lkr None]] c1
    have c3: "calls w3 = calls w"
      and miss: "uc \<and> enable_cache self \<longrightarrow>
                   (\<exists>c. cache self = Some c \<and> map_of c (get_cache_key md5 f) = None)"
      by simp_all
    obtain rs w4 where rs: "run_stages self f w3 = (rs, w4)"
      by (cases "run_stages self f w3")
    from assms ic x1 f lk lkr None rs obtain fr where fr: "rs = Inr fr"
      by (cases rs) (auto simp: analyze_def Let_def)
    obtain x5 w5 where qc: "(if vo then quality_check fr w4 else (None, w4)) = (x5, w5)"
      by (cases "if vo then quality_check fr w4 else (None, w4)")
    from assms ic x1 f lk lkr None rs fr qc have x5: "x5 = None"
      by (cases x5) (auto simp: analyze_def Let_def)
    from quality_check_passed[OF qc] have c5: "calls w5 = calls w4"
      by simp
    obtain x6 s6 w6 where cs: "cache_store md5 self f fr uc w5 = (x6, s6, w6)"
      by (cases "cache_store md5 self f fr uc w5")
    from assms ic x1 f lk lkr None rs fr qc x5 cs
    have x6: "x6 = None" and res: "r = fr" "self' = s6"
      and w': "w' = logger INFO Banner (logger INFO PipelineCompleted (logger INFO Banner w6))"
      by (cases x6; auto simp: analyze_def Let_def)+
    from cache_store_ok[OF cs[unfolded x6]] have c6: "calls w6 = calls w5"
      and st: "if uc \<and> enable_cache self
               then \<exists>c. cache self = Some c \<and>
                      s6 = self\<lparr>cache := Some (AList.update (get_cache_key md5 f) fr c)\<rparr>
               else s6 = self"
      by simp_all
    have "\<exists>w3 w4. calls w3 = calls w \<and> run_stages self f w3 = (Inr r, w4) \<and>
               calls w' = calls w4 \<and>
               (if uc \<and> enable_cache self
                then \<exists>c. cache self = Some c \<and> map_of c (get_cache_key md5 f) = None \<and>
                       self' = self\<lparr>cache := Some (AList.update (get_cache_key md5 f) r c)\<rparr>
                else self' = self)"
      using c3 rs fr res w' c6 c5 st miss
      by (intro exI[of _ w3] exI[of _ w4]) (auto split: if_splits)
    with f v show ?thesis
      by blast
  qed
qed

lemma run_stages_succeeded:
  assumes "run_stages self f w = (Inr r, w')"
  shows "\<exists>report. r = Some report \<and> stages_succeeded self f (calls w) report"
proof -
  from run_stages_Inr[OF assms] obtain a report w1 w2 where
    "invoke_with_retry self (analyst_chain self) (TranscriptInput f) ''Analyst''
       (logger INFO RunningAnalyst w) = (Inr (Some a), w1)"
    "invoke_with_retry self (synthesis_chain self) (AnalysisReportInput a) ''Synthesis''
       (logger INFO RunningSynthesis (logger INFO (AnalysisComplete (length (snippets a))) w1)) =
       (Inr (Some report), w2)"
    "r = Some report"
    by blast
  then show ?thesis
    unfolding stages_succeeded_def
    by (intro exI[of _ report] conjI exI[of _ a] exI[of _ "logger INFO RunningAnalyst w"]
        exI[of _ w1] exI[of _ w2]
        exI[of _ "logger INFO RunningSynthesis
                    (logger INFO (AnalysisComplete (length (snippets a))) w1)"]) simp_all
qed

lemma input_check_valid:
  assumes "validate_transcript t = Inr (True, msg)"
  shows "fst (input_check t w) = None"
  using assms by (simp add: input_check_def Let_def)

lemma analyze_hit:
  assumes "format_transcript t = Inr f"
    and "vi \<longrightarrow> (\<exists>msg. validate_transcript t = Inr (True, msg))"
    and "enable_cache self" and "cache self = Some c"
    and "map_of c (get_cache_key md5 f) = Some r"
  shows "\<exists>w3. analyze md5 self t vi vo True w = (Inr r, self, w3) \<and> calls w3 = calls w"
proof -
  let ?w0 = "logger INFO Banner (logger INFO StartingPipeline (logger INFO Banner w))"
  obtain x1 w1 where ic: "(if vi then input_check t ?w0 else (None, ?w0)) = (x1, w1)"
    by (cases "if vi then input_check t ?w0 else (None, ?w0)")
  have x1: "x1 = None"
  proof (cases vi)
    case True
    with assms(2) obtain msg where "validate_transcript t = Inr (True, msg)"
      by blast
    from input_check_valid[OF this, of ?w0] ic True show ?thesis
      by simp
  next
    case False
    with ic show ?thesis by simp
  qed
  have c1: "calls w1 = calls w"
    using ic input_check_calls[of t ?w0] by (cases vi) auto
  let ?w2 = "logger INFO (TranscriptFormatted (length f)) w1"
  have lk: "cache_lookup md5 self f True ?w2 = (Inr (Some r), logger INFO CacheHit ?w2)"
    using assms(3-5) by (simp add: cache_lookup_def)
  have "analyze md5 self t vi vo True w = (Inr r, self, logger INFO CacheHit ?w2)"
    using ic x1 assms(1) lk by (simp add: analyze_def)
  with c1 show ?thesis
    by simp
qed

lemma run_stages_analyst_called:
  "\<exists>k new. calls (snd (run_stages self f w)) =
             calls w @ replicate k (chain_name (analyst_chain self), TranscriptInput f) @ new \<and>
           (1 \<le> max_retries self \<longrightarrow> 0 < k)"
proof -
  let ?A = "invoke_with_retry self (analyst_chain self) (TranscriptInput f) ''Analyst''
              (logger INFO RunningAnalyst w)"
  obtain ra w1 where A: "?A = (ra, w1)"
    by (cases ?A)
  from invoke_with_retry_calls[of self "analyst_chain self" "TranscriptInput f" "''Analyst''"
      "logger INFO RunningAnalyst w"] A
  obtain k1 where k1: "calls w1 = calls w @ replicate k1 (chain_name (analyst_chain self), TranscriptInput f)"
    "1 \<le> max_retries self \<longrightarrow> 0 < k1"
    by auto
  have "\<exists>new. calls (snd (run_stages self f w)) = calls w1 @ new"
  proof (cases ra)
    case (Inl e)
    with A show ?thesis by (simp add: run_stages_def)
  next
    case (Inr oa)
    show ?thesis
    proof (cases oa)
      case None
      with Inr A show ?thesis by (simp add: run_stages_def)
    next
      case (Some a)
      let ?w2 = "logger INFO RunningSynthesis (logger INFO (AnalysisComplete (length (snippets a))) w1)"
      let ?S = "invoke_with_retry self (synthesis_chain self) (AnalysisReportInput a) ''Synthesis'' ?w2"
      obtain rs w3 where S: "?S = (rs, w3)"
        by (cases ?S)
      from invoke_with_retry_calls[of self "synthesis_chain self" "AnalysisReportInput a"
          "''Synthesis''" ?w2] S
      obtain k2 where "calls w3 = calls w1 @ replicate k2 (chain_name (synthesis_chain self), AnalysisReportInput a)"
        by auto
      with Some Inr A S show ?thesis
        by (cases rs) (simp_all add: run_stages_def Let_def)
    qed
  qed
  with k1 show ?thesis
    by auto
qed

lemma cache_lookup_disabled:
  "\<not> enable_cache self \<Longrightarrow> cache_lookup md5 self f uc w = (Inr None, w)"
  by (simp add: cache_lookup_def)

lemma cache_store_disabled:
  "\<not> enable_cache self \<Longrightarrow> cache_store md5 self f r uc w = (None, self, w)"
  by (simp add: cache_store_def)

lemma analyze_disabled_self:
  assumes "\<not> enable_cache self"
  shows "fst (snd (analyze md5 self t vi vo uc w)) = self"
proof -
  let ?X = "analyze md5 self t vi vo uc w"
  have X: "?X = (fst ?X, fst (snd ?X), snd (snd ?X))"
    by simp
  show ?thesis
  proof (cases "fst ?X")
    case (Inl e)
    with X have "?X = (Inl e, fst (snd ?X), snd (snd ?X))" by simp
    then show ?thesis by (rule analyze_raises_self)
  next
    case (Inr r)
    with X have "?X = (Inr r, fst (snd ?X), snd (snd ?X))" by simp
    from analyze_returns[OF this] assms show ?thesis by auto
  qed
qed

lemma analyze_disabled_calls:
  assumes "\<not> enable_cache self" and "format_transcript t = Inr f"
    and "vi \<longrightarrow> (\<exists>msg. validate_transcript t = Inr (True, msg))"
  shows "\<exists>w3. calls w3 = calls w \<and>
           calls (snd (snd (analyze md5 self t vi vo uc w))) = calls (snd (run_stages self f w3))"
proof -
  let ?w0 = "logger INFO Banner (logger INFO StartingPipeline (logger INFO Banner w))"
  obtain x1 w1 where ic: "(if vi then input_check t ?w0 else (None, ?w0)) = (x1, w1)"
    by (cases "if vi then input_check t ?w0 else (None, ?w0)")
  have x1: "x1 = None"
  proof (cases vi)
    case True
    with assms(3) obtain msg where "validate_transcript t = Inr (True, msg)"
      by blast
    from input_check_valid[OF this, of ?w0] ic True show ?thesis
      by simp
  next
    case False
    with ic show ?thesis by simp
  qed
  have c1: "calls w1 = calls w"
    using ic input_check_calls[of t ?w0] by (cases vi) auto
  let ?w2 = "logger INFO (TranscriptFormatted (length f)) w1"
  obtain rs w4 where rs: "run_stages self f ?w2 = (rs, w4)"
    by (cases "run_stages self f ?w2")
  have "calls (snd (snd (analyze md5 self t vi vo uc w))) = calls w4"
  proof (cases rs)
    case (Inl e)
    with ic x1 assms(1,2) rs show ?thesis
      by (simp add: analyze_def cache_lookup_disabled)
  next
    case (Inr fr)
    obtain x5 w5 where qc: "(if vo then quality_check fr w4 else (None, w4)) = (x5, w5)"
      by (cases "if vo then quality_check fr w4 else (None, w4)")
    from quality_check_passed[OF qc] have "calls w5 = calls w4" .
    with ic x1 assms(1,2) rs Inr qc show ?thesis
      by (cases x5) (simp_all add: analyze_def cache_lookup_disabled cache_store_disabled)
  qed
  with rs c1 show ?thesis
    by (intro exI[of _ ?w2]) simp
qed

lemma retry_loop_calls_only:
  "calls w = calls v \<Longrightarrow>
     fst (retry_loop ch inp sn maxr attempt w) = fst (retry_loop ch inp sn' maxr attempt v) \<and>
     calls (snd (retry_loop ch inp sn maxr attempt w)) =
       calls (snd (retry_loop ch inp sn' maxr attempt v))"
proof (induction ch inp sn maxr attempt w arbitrary: v rule: retry_loop.induct)
  case (1 ch inp sn maxr attempt w)
  show ?case
  proof (cases "maxr < attempt")
    case True
    with "1.prems" show ?thesis
      by (subst (1 2 3 4) retry_loop.simps) simp
  next
    case False
    obtain out w1 where inv: "invoke ch inp (logger INFO (Attempt sn attempt maxr) w) = (out, w1)"
      by (cases "invoke ch inp (logger INFO (Attempt sn attempt maxr) w)")
    obtain out' v1 where inv': "invoke ch inp (logger INFO (Attempt sn' attempt maxr) v) = (out', v1)"
      by (cases "invoke ch inp (logger INFO (Attempt sn' attempt maxr) v)")
    from inv inv' "1.prems" have same: "out' = out" "calls v1 = calls w1"
      by (auto simp: invoke_def)
    show ?thesis
    proof (cases out)
      case (Inr r)
      with False inv inv' same show ?thesis
        by (subst (1 2 3 4) retry_loop.simps) simp
    next
      case (Inl e)
      show ?thesis
      proof (cases "attempt = maxr")
        case True
        with False inv inv' same Inl show ?thesis
          by (subst (1 2 3 4) retry_loop.simps) (simp add: Let_def)
      next
        case ne: False
        let ?w2 = "logger INFO (Retrying sn) (logger WARNING (AttemptFailed sn attempt e) w1)"
        let ?v2 = "logger INFO (Retrying sn') (logger WARNING (AttemptFailed sn' attempt e) v1)"
        have "calls ?w2 = calls ?v2"
          using same by simp
        from "1.IH"[OF False inv[symmetric] Inl refl ne this]
        have "fst (retry_loop ch inp sn maxr (attempt + 1) ?w2) =
                fst (retry_loop ch inp sn' maxr (attempt + 1) ?v2) \<and>
              calls (snd (retry_loop ch inp sn maxr (attempt + 1) ?w2)) =
                calls (snd (retry_loop ch inp sn' maxr (attempt + 1) ?v2))" .
        moreover have "retry_loop ch inp sn maxr attempt w =
                         retry_loop ch inp sn maxr (attempt + 1) ?w2"
          using False inv Inl ne by (subst retry_loop.simps) (simp add: Let_def)
        moreover have "retry_loop ch inp sn' maxr attempt v =
                         retry_loop ch inp sn' maxr (attempt + 1) ?v2"
          using False inv' same Inl ne by (subst retry_loop.simps) (simp add: Let_def)
        ultimately show ?thesis
          by simp
      qed
    qed
  qed
qed

lemma invoke_with_retry_calls_only:
  assumes "calls w = calls v"
  shows "fst (invoke_with_retry self ch inp sn w) = fst (invoke_with_retry self ch inp sn v)"
    and "calls (snd (invoke_with_retry self ch inp sn w)) =
         calls (snd (invoke_with_retry self ch inp sn v))"
  using retry_loop_calls_only[OF assms, of ch inp sn "max_retries self" 1 sn]
  by (simp_all add: invoke_with_retry_def)

lemma run_stages_Inl_iff:
  assumes "1 \<le> max_retries self"
  shows "fst (run_stages self f w) = Inl e \<longleftrightarrow> stage_failed self f (calls w) e"
proof -
  let ?wA = "logger INFO RunningAnalyst w"
  let ?A = "invoke_with_retry self (analyst_chain self) (TranscriptInput f) ''Analyst'' ?wA"
  obtain ra w1 where A: "?A = (ra, w1)"
    by (cases ?A)
  have notNone: "ra \<noteq> Inr None"
    using invoke_with_retry_None_iff[of self "analyst_chain self" "TranscriptInput f"
        "''Analyst''" ?wA] A assms by auto
  have AA: "fst (invoke_with_retry self (analyst_chain self) (TranscriptInput f) ''Analyst'' w1') = ra \<and>
            calls (snd (invoke_with_retry self (analyst_chain self) (TranscriptInput f) ''Analyst'' w1')) = calls w1"
    if "calls w1' = calls w" for w1'
    using invoke_with_retry_calls_only[of w1' ?wA self "analyst_chain self" "TranscriptInput f"
        "''Analyst''"] that A by simp
  show ?thesis
  proof (cases ra)
    case (Inl e')
    have "fst (run_stages self f w) = Inl e'"
      using A Inl by (simp add: run_stages_def)
    moreover have "stage_failed self f (calls w) e \<longleftrightarrow> e = e'"
    proof
      assume "stage_failed self f (calls w) e"
      then obtain w1' where "calls w1' = calls w"
        and alt: "fst (invoke_with_retry self (analyst_chain self) (TranscriptInput f) ''Analyst'' w1') = Inl e \<or>
           (\<exists>a w2 w3. invoke_with_retry self (analyst_chain self) (TranscriptInput f) ''Analyst'' w1' =
              (Inr (Some a), w2) \<and> calls w3 = calls w2 \<and>
              fst (invoke_with_retry self (synthesis_chain self) (AnalysisReportInput a)
                     ''Synthesis'' w3) = Inl e)"
        unfolding stage_failed_def by blast
      with AA[of w1'] Inl show "e = e'"
        by auto
    next
      assume "e = e'"
      with A Inl show "stage_failed self f (calls w) e"
        unfolding stage_failed_def by (intro exI[of _ ?wA]) simp
    qed
    ultimately show ?thesis
      by auto
  next
    case (Inr oa)
    with notNone obtain a where a: "oa = Some a"
      by (cases oa) auto
    let ?w2 = "logger INFO RunningSynthesis (logger INFO (AnalysisComplete (length (snippets a))) w1)"
    let ?S = "invoke_with_retry self (synthesis_chain self) (AnalysisReportInput a) ''Synthesis'' ?w2"
    have rs: "fst (run_stages self f w) = (case fst ?S of Inl e' \<Rightarrow> Inl e' | Inr r \<Rightarrow> Inr r)"
      using A Inr a by (simp add: run_stages_def Let_def split: prod.splits sum.splits)
    have "stage_failed self f (calls w) e \<longleftrightarrow> fst ?S = Inl e"
    proof
      assume "stage_failed self f (calls w) e"
      then obtain w1' where c: "calls w1' = calls w"
        and alt: "fst (invoke_with_retry self (analyst_chain self) (TranscriptInput f) ''Analyst'' w1') = Inl e \<or>
           (\<exists>a w2 w3. invoke_with_retry self (analyst_chain self) (TranscriptInput f) ''Analyst'' w1' =
              (Inr (Some a), w2) \<and> calls w3 = calls w2 \<and>
              fst (invoke_with_retry self (synthesis_chain self) (AnalysisReportInput a)
                     ''Synthesis'' w3) = Inl e)"
        unfolding stage_failed_def by blast
      from AA[OF c] Inr a alt obtain w2' w3' where
        "invoke_with_retry self (analyst_chain self) (TranscriptInput f) ''Analyst'' w1' =
              (Inr (Some a), w2')" "calls w3' = calls w2'"
        "fst (invoke_with_retry self (synthesis_chain self) (AnalysisReportInput a)
                     ''Synthesis'' w3') = Inl e"
        by auto
      moreover from this AA[OF c] have "calls w3' = calls ?w2"
        by simp
      ultimately show "fst ?S = Inl e"
        using invoke_with_retry_calls_only(1)[of w3' ?w2 self "synthesis_chain self"
            "AnalysisReportInput a" "''Synthesis''"] by simp
    next
      assume "fst ?S = Inl e"
      with A Inr a show "stage_failed self f (calls w) e"
        unfolding stage_failed_def
        by (intro exI[of _ ?wA] conjI disjI2 exI[of _ a] exI[of _ w1] exI[of _ ?w2]) simp_all
    qed
    with rs show ?thesis
      by (auto split: sum.splits)
  qed
qed

lemma validate_transcript_returns:
  assumes "unwrapped t = PDict (flat m)"
  shows "\<exists>b msg. validate_transcript t = Inr (b, msg) \<and> (\<not> b \<longrightarrow> msg \<noteq> None)"
  unfolding validate_transcript_def
  by (auto simp: assms check_entries_flat Let_def split: option.splits)

lemma input_check_result:
  assumes "validate_transcript t = Inr (b, msg)"
  shows "fst (input_check t w) =
           (if b then None
            else Some (ValueError (''Invalid transcript: '' @
                                   (case msg of None \<Rightarrow> ''None'' | Some txt \<Rightarrow> txt))))"
  using assms by (simp add: input_check_def Let_def)

lemma quality_check_Some: "fst (quality_check (Some report) w) = None"
  by (simp add: quality_check_def Let_def split: prod.splits)

lemma cache_lookup_cached_value:
  assumes "enable_cache self \<longrightarrow> cache self \<noteq> None"
  shows "fst (cache_lookup md5 self f uc w) = Inr (cached_value md5 self f uc)"
  using assms by (auto simp: cache_lookup_def cached_value_def Let_def split: option.splits)

lemma cache_store_built:
  assumes "enable_cache self \<longrightarrow> cache self \<noteq> None"
  shows "fst (cache_store md5 self f r uc w) = None"
  using assms by (auto simp: cache_store_def Let_def split: option.splits)

lemma analyze_fst_cases:
  assumes v: "validate_transcript t = Inr (b, msg)"
    and f: "format_transcript t = Inr f"
    and retries: "1 \<le> max_retries self"
    and built: "enable_cache self \<longrightarrow> cache self \<noteq> None"
  shows "\<exists>w3. calls w3 = calls w \<and>
           (\<forall>vo. fst (analyze md5 self t vi vo uc w) =
              (if vi \<and> \<not> b
               then Inl (ValueError (''Invalid transcript: '' @
                                     (case msg of None \<Rightarrow> ''None'' | Some txt \<Rightarrow> txt)))
               else case cached_value md5 self f uc of
                      Some r \<Rightarrow> Inr r
                    | None \<Rightarrow> fst (run_stages self f w3)))"
proof -
  let ?w0 = "logger INFO Banner (logger INFO StartingPipeline (logger INFO Banner w))"
  obtain x1 w1 where ic: "(if vi then input_check t ?w0 else (None, ?w0)) = (x1, w1)"
    by (cases "if vi then input_check t ?w0 else (None, ?w0)")
  have c1: "calls w1 = calls w"
    using ic input_check_calls[of t ?w0] by (cases vi) auto
  have x1: "x1 = (if vi \<and> \<not> b
                  then Some (ValueError (''Invalid transcript: '' @
                               (case msg of None \<Rightarrow> ''None'' | Some txt \<Rightarrow> txt)))
                  else None)"
    using ic input_check_result[OF v, of ?w0] by (cases vi) auto
  let ?w2 = "logger INFO (TranscriptFormatted (length f)) w1"
  obtain lk w3 where lk: "cache_lookup md5 self f uc ?w2 = (lk, w3)"
    by (cases "cache_lookup md5 self f uc ?w2")
  have lkv: "lk = Inr (cached_value md5 self f uc)"
    using cache_lookup_cached_value[OF built, of md5 f uc ?w2] lk by simp
  have c3: "calls w3 = calls w"
    using cache_lookup_calls[of md5 self f uc ?w2] lk c1 by simp
  have "fst (analyze md5 self t vi vo uc w) =
              (if vi \<and> \<not> b
               then Inl (ValueError (''Invalid transcript: '' @
                                     (case msg of None \<Rightarrow> ''None'' | Some txt \<Rightarrow> txt)))
               else case cached_value md5 self f uc of
                      Some r \<Rightarrow> Inr r
                    | None \<Rightarrow> fst (run_stages self f w3))" for vo
  proof (cases "vi \<and> \<not> b")
    case True
    with ic x1 show ?thesis
      by (simp add: analyze_def)
  next
    case False
    with x1 have x1n: "x1 = None"
      by simp
    show ?thesis
    proof (cases "cached_value md5 self f uc")
      case (Some r)
      with False ic x1n f lk lkv show ?thesis
        by (auto simp: analyze_def)
    next
      case None
      obtain rs w4 where rs: "run_stages self f w3 = (rs, w4)"
        by (cases "run_stages self f w3")
      show ?thesis
      proof (cases rs)
        case (Inl e)
        with False ic x1n f lk lkv None rs show ?thesis
          by (auto simp: analyze_def)
      next
        case (Inr fr)
        from run_stages_Inr[OF rs[unfolded Inr]] obtain report where fr: "fr = Some report"
          by blast
        obtain x5 w5 where qc: "(if vo then quality_check fr w4 else (None, w4)) = (x5, w5)"
          by (cases "if vo then quality_check fr w4 else (None, w4)")
        have x5: "x5 = None"
          using qc quality_check_Some[of report w4] fr by (cases vo) auto
        obtain x6 s6 w6 where cs: "cache_store md5 self f fr uc w5 = (x6, s6, w6)"
          by (cases "cache_store md5 self f fr uc w5")
        have x6: "x6 = None"
          using cache_store_built[OF built, of md5 f fr uc w5] cs by simp
        from False ic x1n f lk lkv None rs Inr qc x5 cs x6 show ?thesis
          by (auto simp: analyze_def)
      qed
    qed
  qed
  with c3 show ?thesis
    by blast
qed

lemma run_stages_runs_both:
  "runs_both_stages self f (calls w) (fst (run_stages self f w)) (calls (snd (run_stages self f w)))"
proof -
  let ?wA = "logger INFO RunningAnalyst w"
  let ?A = "invoke_with_retry self (analyst_chain self) (TranscriptInput f) ''Analyst'' ?wA"
  obtain ra w1 where A: "?A = (ra, w1)"
    by (cases ?A)
  have "case ra of
           Inl e \<Rightarrow> fst (run_stages self f w) = Inl e \<and> calls (snd (run_stages self f w)) = calls w1
         | Inr None \<Rightarrow> fst (run_stages self f w) = Inl (no_attribute ''NoneType'' ''snippets'') \<and>
                       calls (snd (run_stages self f w)) = calls w1
         | Inr (Some a) \<Rightarrow>
             (\<exists>w3 w4.
                calls w3 = calls w1 \<and>
                invoke_with_retry self (synthesis_chain self) (AnalysisReportInput a)
                  ''Synthesis'' w3 = (fst (run_stages self f w), w4) \<and>
                calls (snd (run_stages self f w)) = calls w4)"
  proof (cases ra)
    case (Inl e)
    with A show ?thesis by (simp add: run_stages_def)
  next
    case (Inr oa)
    show ?thesis
    proof (cases oa)
      case None
      with Inr A show ?thesis by (simp add: run_stages_def)
    next
      case (Some a)
      let ?w2 = "logger INFO RunningSynthesis (logger INFO (AnalysisComplete (length (snippets a))) w1)"
      let ?S = "invoke_with_retry self (synthesis_chain self) (AnalysisReportInput a) ''Synthesis'' ?w2"
      obtain rs wS where S: "?S = (rs, wS)"
        by (cases ?S)
      have "fst (run_stages self f w) = rs \<and> calls (snd (run_stages self f w)) = calls wS"
        using A Inr Some S by (cases rs) (simp_all add: run_stages_def Let_def)
      moreover have "calls ?w2 = calls w1"
        by simp
      ultimately have "\<exists>w3 w4. calls w3 = calls w1 \<and>
                invoke_with_retry self (synthesis_chain self) (AnalysisReportInput a)
                  ''Synthesis'' w3 = (fst (run_stages self f w), w4) \<and>
                calls (snd (run_stages self f w)) = calls w4"
        using S by (intro exI[of _ ?w2] exI[of _ wS]) simp
      with Inr Some show ?thesis
        by simp
    qed
  qed
  with A show ?thesis
    unfolding runs_both_stages_def
    by (intro exI[of _ ?wA] exI[of _ ra] exI[of _ w1]) simp
qed

lemma analyze_disabled_run:
  assumes "\<not> enable_cache self" and "format_transcript t = Inr f"
    and "vi \<longrightarrow> (\<exists>msg. validate_transcript t = Inr (True, msg))"
  shows "\<exists>w3. calls w3 = calls w \<and>
           fst (analyze md5 self t vi vo uc w) = fst (run_stages self f w3) \<and>
           calls (snd (snd (analyze md5 self t vi vo uc w))) = calls (snd (run_stages self f w3))"
proof -
  let ?w0 = "logger INFO Banner (logger INFO StartingPipeline (logger INFO Banner w))"
  obtain x1 w1 where ic: "(if vi then input_check t ?w0 else (None, ?w0)) = (x1, w1)"
    by (cases "if vi then input_check t ?w0 else (None, ?w0)")
  have x1: "x1 = None"
  proof (cases vi)
    case True
    with assms(3) obtain msg where "validate_transcript t = Inr (True, msg)"
      by blast
    from input_check_valid[OF this, of ?w0] ic True show ?thesis
      by simp
  next
    case False
    with ic show ?thesis by simp
  qed
  have c1: "calls w1 = calls w"
    using ic input_check_calls[of t ?w0] by (cases vi) auto
  let ?w2 = "logger INFO (TranscriptFormatted (length f)) w1"
  obtain rs w4 where rs: "run_stages self f ?w2 = (rs, w4)"
    by (cases "run_stages self f ?w2")
  have "fst (analyze md5 self t vi vo uc w) = rs \<and>
        calls (snd (snd (analyze md5 self t vi vo uc w))) = calls w4"
  proof (cases rs)
    case (Inl e)
    with ic x1 assms(1,2) rs show ?thesis
      by (simp add: analyze_def cache_lookup_disabled)
  next
    case (Inr fr)
    from run_stages_Inr[OF rs[unfolded Inr]] obtain report where fr: "fr = Some report"
      by blast
    obtain x5 w5 where qc: "(if vo then quality_check fr w4 else (None, w4)) = (x5, w5)"
      by (cases "if vo then quality_check fr w4 else (None, w4)")
    have x5: "x5 = None"
      using qc quality_check_Some[of report w4] fr by (cases vo) auto
    from quality_check_passed[OF qc] have "calls w5 = calls w4" .
    with ic x1 assms(1,2) rs Inr qc x5 show ?thesis
      by (simp add: analyze_def cache_lookup_disabled cache_store_disabled)
  qed
  with rs c1 show ?thesis
    by (intro exI[of _ ?w2]) simp
qed

lemma analyze_invalid_input:
  assumes "validate_transcript t = Inr (False, Some why)"
  shows "fst (analyze md5 self t True vo uc w) = Inl (ValueError (''Invalid transcript: '' @ why)) \<and>
         calls (snd (snd (analyze md5 self t True vo uc w))) = calls w"
  using assms by (simp add: analyze_def input_check_def Let_def)
section \<open>The cache and the pipeline\<close>

text \<open>
  C6. Whenever \<open>analyze\<close> raises, whether from the input check, the normalizer, the
  lookup, a stage that has used up its attempts, or anything after, the pipeline object
  and with it the cache is left as it was. The cache changes in one case only: both
  stages have succeeded, and the report of the Synthesis stage is stored under the
  fingerprint of the formatted transcript and returned. Every value \<open>analyze\<close> returns is
  either a value found in the cache or the complete report of a Synthesis stage that
  ran after a successful Analyst stage.
\<close>

theorem cache_written_only_after_success:
  assumes "analyze md5 self t vi vo uc w = (res, self', w')"
  shows "(isl res \<longrightarrow> self' = self) \<and>
         (self' \<noteq> self \<longrightarrow>
            (\<exists>f report c. format_transcript t = Inr f \<and>
               stages_succeeded self f (calls w) report \<and> res = Inr (Some report) \<and>
               cache self = Some c \<and>
               self' = self\<lparr>cache := Some (AList.update (get_cache_key md5 f) (Some report) c)\<rparr>)) \<and>
         (\<forall>r. res = Inr r \<longrightarrow>
            (\<exists>f. format_transcript t = Inr f \<and>
               ((\<exists>c. uc \<and> enable_cache self \<and> cache self = Some c \<and>
                     map_of c (get_cache_key md5 f) = Some r \<and> self' = self) \<or>
                (\<exists>report. r = Some report \<and> stages_succeeded self f (calls w) report))))"
proof (cases res)
  case (Inl e)
  with assms have "self' = self"
    by (auto dest: analyze_raises_self)
  with Inl show ?thesis
    by simp
next
  case (Inr r)
  from analyze_returns[OF assms[unfolded Inr]] obtain f where f: "format_transcript t = Inr f"
    and alt: "(uc \<and> enable_cache self \<and>
             (\<exists>c. cache self = Some c \<and> map_of c (get_cache_key md5 f) = Some r) \<and>
             self' = self \<and> calls w' = calls w) \<or>
            (\<exists>w3 w4. calls w3 = calls w \<and> run_stages self f w3 = (Inr r, w4) \<and>
               calls w' = calls w4 \<and>
               (if uc \<and> enable_cache self
                then \<exists>c. cache self = Some c \<and> map_of c (get_cache_key md5 f) = None \<and>
                       self' = self\<lparr>cache := Some (AList.update (get_cache_key md5 f) r c)\<rparr>
                else self' = self))"
    by blast
  from alt show ?thesis
  proof
    assume "uc \<and> enable_cache self \<and>
             (\<exists>c. cache self = Some c \<and> map_of c (get_cache_key md5 f) = Some r) \<and>
             self' = self \<and> calls w' = calls w"
    with Inr f show ?thesis
      by auto
  next
    assume "\<exists>w3 w4. calls w3 = calls w \<and> run_stages self f w3 = (Inr r, w4) \<and>
               calls w' = calls w4 \<and>
               (if uc \<and> enable_cache self
                then \<exists>c. cache self = Some c \<and> map_of c (get_cache_key md5 f) = None \<and>
                       self' = self\<lparr>cache := Some (AList.update (get_cache_key md5 f) r c)\<rparr>
                else self' = self)"
    then obtain w3 w4 where c3: "calls w3 = calls w" and rs: "run_stages self f w3 = (Inr r, w4)"
      and st: "if uc \<and> enable_cache self
                then \<exists>c. cache self = Some c \<and> map_of c (get_cache_key md5 f) = None \<and>
                       self' = self\<lparr>cache := Some (AList.update (get_cache_key md5 f) r c)\<rparr>
                else self' = self"
      by blast
    from run_stages_succeeded[OF rs] c3 obtain report where
      rep: "r = Some report" "stages_succeeded self f (calls w) report"
      by auto
    have "self' \<noteq> self \<longrightarrow>
            (\<exists>c. cache self = Some c \<and>
               self' = self\<lparr>cache := Some (AList.update (get_cache_key md5 f) (Some report) c)\<rparr>)"
      using st rep(1) by (auto split: if_splits)
    with Inr f rep show ?thesis
      by auto
  qed
qed

theorem cache_written_only_after_success_witness:
  "fst (analyze id (failing_pipeline True 2) example_request True True True empty_world) =
     Inl (OtherError ''boom'') \<and>
   fst (snd (analyze id (failing_pipeline True 2) example_request True True True empty_world)) =
     failing_pipeline True 2"
proof -
  let ?X = "analyze id (failing_pipeline True 2) example_request True True True empty_world"
  have e: "fst ?X = Inl (OtherError ''boom'')"
    by code_simp
  have "?X = (fst ?X, fst (snd ?X), snd (snd ?X))"
    by simp
  from cache_written_only_after_success[OF this] e show ?thesis
    by simp
qed

text \<open>
  C1. With the cache enabled at construction and \<^verbatim>\<open>use_cache\<close> true at the call: when a
  call of \<open>analyze\<close> returns a report \<open>r\<close>, the cache of the resulting pipeline is the cache
  before the call with \<open>r\<close> under the key \<open>md5 f\<close>, the digest of the formatted transcript
  \<open>f\<close>, and with every other key as it was (the key is the digest of the normalized text
  and nothing else, for every digest function \<open>md5\<close>, hence for \<open>hashlib_md5\<close>, the MD5
  hexadecimal digest that the source computes); the pipeline is unchanged when the
  report was found there already and is otherwise updated at that key only. Every later
  call on the resulting pipeline with the same transcript and the same
  \<^verbatim>\<open>validate_input\<close> returns the same report and makes no call to the backend: the lookup
  returns the cached report before either stage is reached.
\<close>

theorem second_call_returns_cached_report:
  assumes "enable_cache self"
    and "analyze md5 self t vi vo True w = (Inr r, self', w')"
  shows "\<exists>f c c'. format_transcript t = Inr f \<and> cache self = Some c \<and> cache self' = Some c' \<and>
           map_of c' = (map_of c)(md5 f \<mapsto> r) \<and>
           (self' = self \<or> self' = self\<lparr>cache := Some (AList.update (md5 f) r c)\<rparr>) \<and>
           (\<forall>vo2 w2. \<exists>w3. analyze md5 self' t vi vo2 True w2 = (Inr r, self', w3) \<and>
                         calls w3 = calls w2)"
proof -
  from analyze_returns[OF assms(2)] assms(1) obtain f where f: "format_transcript t = Inr f"
    and v: "vi \<longrightarrow> (\<exists>msg. validate_transcript t = Inr (True, msg))"
    and alt: "(\<exists>c. cache self = Some c \<and> map_of c (md5 f) = Some r \<and> self' = self) \<or>
              (\<exists>c. cache self = Some c \<and>
                 self' = self\<lparr>cache := Some (AList.update (md5 f) r c)\<rparr>)"
    by (auto simp: get_cache_key_def)
  from alt obtain c c' where c: "cache self = Some c" and c': "cache self' = Some c'"
    and upd: "map_of c' = (map_of c)(md5 f \<mapsto> r)"
    and how: "self' = self \<or> self' = self\<lparr>cache := Some (AList.update (md5 f) r c)\<rparr>"
  proof
    assume "\<exists>c. cache self = Some c \<and> map_of c (md5 f) = Some r \<and> self' = self"
    then obtain c where "cache self = Some c" "map_of c (md5 f) = Some r" "self' = self"
      by blast
    moreover from this have "map_of c = (map_of c)(md5 f \<mapsto> r)"
      by (simp add: map_upd_triv)
    ultimately show ?thesis
      using that[of c c] by simp
  next
    assume "\<exists>c. cache self = Some c \<and>
                 self' = self\<lparr>cache := Some (AList.update (md5 f) r c)\<rparr>"
    then obtain c where "cache self = Some c"
      "self' = self\<lparr>cache := Some (AList.update (md5 f) r c)\<rparr>"
      by blast
    then show ?thesis
      using that[of c "AList.update (md5 f) r c"] by (simp add: update_conv')
  qed
  from how assms(1) have en: "enable_cache self'"
    by auto
  from upd have hit: "map_of c' (get_cache_key md5 f) = Some r"
    by (simp add: get_cache_key_def)
  have "\<exists>w3. analyze md5 self' t vi vo2 True w2 = (Inr r, self', w3) \<and> calls w3 = calls w2"
    for vo2 w2
    using f v en c' hit by (rule analyze_hit)
  with f c c' upd how show ?thesis
    by blast
qed

theorem second_call_returns_cached_report_witness:
  "enable_cache (example_pipeline True 3) \<and>
   fst (analyze hashlib_md5 (example_pipeline True 3) example_request True True True empty_world) =
     Inr (Some sparse_report) \<and>
   cache (fst (snd (analyze hashlib_md5 (example_pipeline True 3) example_request True True True
                      empty_world))) =
     Some [(''8bfda0601adee9374dde4c4f709c9af7'', Some sparse_report)] \<and>
   fst (analyze hashlib_md5
          (fst (snd (analyze hashlib_md5 (example_pipeline True 3) example_request True True True
                       empty_world)))
          example_request True True True
          (snd (snd (analyze hashlib_md5 (example_pipeline True 3) example_request True True True
                       empty_world)))) = Inr (Some sparse_report) \<and>
   calls (snd (snd (analyze hashlib_md5
          (fst (snd (analyze hashlib_md5 (example_pipeline True 3) example_request True True True
                       empty_world)))
          example_request True True True
          (snd (snd (analyze hashlib_md5 (example_pipeline True 3) example_request True True True
                       empty_world)))))) =
     calls (snd (snd (analyze hashlib_md5 (example_pipeline True 3) example_request True True True
                        empty_world)))"
proof -
  let ?X = "analyze hashlib_md5 (example_pipeline True 3) example_request True True True empty_world"
  have en: "enable_cache (example_pipeline True 3)"
    by (simp add: example_pipeline_def init_def)
  have r: "fst ?X = Inr (Some sparse_report)"
    by code_simp
  have k: "cache (fst (snd ?X)) =
             Some [(''8bfda0601adee9374dde4c4f709c9af7'', Some sparse_report)]"
    by code_simp
  have "?X = (fst ?X, fst (snd ?X), snd (snd ?X))"
    by simp
  then have first: "?X = (Inr (Some sparse_report), fst (snd ?X), snd (snd ?X))"
    by (simp only: r)
  from second_call_returns_cached_report[OF en first]
  obtain w3 where
    "analyze hashlib_md5 (fst (snd ?X)) example_request True True True (snd (snd ?X)) =
       (Inr (Some sparse_report), fst (snd ?X), w3)"
    "calls w3 = calls (snd (snd ?X))"
    by blast
  with en r k show ?thesis
    by simp
qed

text \<open>
  C9, as stated: with the cache disabled \<open>analyze\<close> invokes both stages on every call.
  It does not. With the cache disabled, a call whose transcript is empty raises the
  \<^verbatim>\<open>ValueError\<close> of the input check and no backend call is made; and a call on a valid
  transcript whose Analyst backend fails three times out of three raises that failure
  after three Analyst calls, and the Synthesis chain is never called.
\<close>

theorem cache_disabled_stage_not_invoked_counterexample:
  "\<not> enable_cache (example_pipeline False 3) \<and>
   fst (analyze id (example_pipeline False 3) [] True True True empty_world) =
     Inl (ValueError ''Invalid transcript: Transcript cannot be empty'') \<and>
   calls (snd (snd (analyze id (example_pipeline False 3) [] True True True empty_world))) = [] \<and>
   \<not> enable_cache (failing_pipeline False 3) \<and>
   validate_transcript example_request = Inr (True, None) \<and>
   fst (analyze id (failing_pipeline False 3) example_request True True True empty_world) =
     Inl (OtherError ''boom'') \<and>
   calls (snd (snd (analyze id (failing_pipeline False 3) example_request True True True
                      empty_world))) =
     replicate 3
       (AnalystChain,
        TranscriptInput (''Interviewer: Q?'' @ [CHR 0x0A, CHR 0x0A] @ ''Candidate: A.''))"
  by code_simp

text \<open>
  C9, amended. For a pipeline constructed with \<^verbatim>\<open>enable_cache=False\<close> there is no cache
  (\<^verbatim>\<open>self.cache\<close> is \<^verbatim>\<open>None\<close>) and \<open>get_cache_stats\<close> returns the one field
  \<^verbatim>\<open>enabled = False\<close>. In \<open>analyze\<close> the lookup always misses and the store does
  nothing, whatever \<^verbatim>\<open>use_cache\<close> is, so that every call leaves the pipeline as it was and
  no call is answered from a cache. A call whose transcript the input check rejects
  raises the \<^verbatim>\<open>ValueError\<close> of the check before any backend call. Every call that gets
  past the input check and the normalizer runs the Analyst stage and, whenever that
  stage returns an analysis, the Synthesis stage on that analysis; the outcome of the
  call is the outcome of that run, and the backend calls of the call are those of that
  run. Hence every call that returns a report has called the Analyst chain and then the
  Synthesis chain, at least once each, and returns what the Synthesis chain answered on
  the last of these calls.
\<close>

theorem cache_disabled_never_caches:
  assumes "self = init a_chain s_chain False mr"
  shows "cache self = None \<and>
         get_cache_stats self = Inr [(''enabled'', StatBool False)] \<and>
         (\<forall>f uc w. cache_lookup md5 self f uc w = (Inr None, w)) \<and>
         (\<forall>f r uc w. cache_store md5 self f r uc w = (None, self, w)) \<and>
         (\<forall>t vi vo uc w. fst (snd (analyze md5 self t vi vo uc w)) = self) \<and>
         (\<forall>t vo uc w why.
            validate_transcript t = Inr (False, Some why)
            \<longrightarrow> fst (analyze md5 self t True vo uc w) =
                  Inl (ValueError (''Invalid transcript: '' @ why)) \<and>
                calls (snd (snd (analyze md5 self t True vo uc w))) = calls w) \<and>
         (\<forall>t vi vo uc w f.
            format_transcript t = Inr f \<and>
            (vi \<longrightarrow> (\<exists>msg. validate_transcript t = Inr (True, msg)))
            \<longrightarrow> runs_both_stages self f (calls w) (fst (analyze md5 self t vi vo uc w))
                  (calls (snd (snd (analyze md5 self t vi vo uc w))))) \<and>
         (\<forall>t vi vo uc w r.
            fst (analyze md5 self t vi vo uc w) = Inr r
            \<longrightarrow> (\<exists>f a report k1 k2.
                   format_transcript t = Inr f \<and> r = Some report \<and> 0 < k1 \<and> 0 < k2 \<and>
                   calls (snd (snd (analyze md5 self t vi vo uc w))) =
                     calls w @ replicate k1 (chain_name a_chain, TranscriptInput f) @
                       replicate k2 (chain_name s_chain, AnalysisReportInput a) \<and>
                   respond s_chain (butlast (calls (snd (snd (analyze md5 self t vi vo uc w)))))
                     (AnalysisReportInput a) = Inr report))"
proof -
  have dis: "\<not> enable_cache self" and none: "cache self = None"
    and ch: "analyst_chain self = a_chain" "synthesis_chain self = s_chain"
    by (simp_all add: assms init_def)
  have stats: "get_cache_stats self = Inr [(''enabled'', StatBool False)]"
    using dis by (simp add: get_cache_stats_def)
  have runs: "runs_both_stages self f (calls w) (fst (analyze md5 self t vi vo uc w))
                (calls (snd (snd (analyze md5 self t vi vo uc w))))"
    if "format_transcript t = Inr f \<and>
        (vi \<longrightarrow> (\<exists>msg. validate_transcript t = Inr (True, msg)))"
    for t vi vo uc w f
  proof -
    from analyze_disabled_run[OF dis that[THEN conjunct1] that[THEN conjunct2]]
    obtain w3 where w3: "calls w3 = calls w"
      "fst (analyze md5 self t vi vo uc w) = fst (run_stages self f w3)"
      "calls (snd (snd (analyze md5 self t vi vo uc w))) = calls (snd (run_stages self f w3))"
      by blast
    from run_stages_runs_both[of self f w3] w3 show ?thesis
      by simp
  qed
  have fresh: "\<exists>f a report k1 k2.
                   format_transcript t = Inr f \<and> r = Some report \<and> 0 < k1 \<and> 0 < k2 \<and>
                   calls (snd (snd (analyze md5 self t vi vo uc w))) =
                     calls w @ replicate k1 (chain_name a_chain, TranscriptInput f) @
                       replicate k2 (chain_name s_chain, AnalysisReportInput a) \<and>
                   respond s_chain (butlast (calls (snd (snd (analyze md5 self t vi vo uc w)))))
                     (AnalysisReportInput a) = Inr report"
    if "fst (analyze md5 self t vi vo uc w) = Inr r" for t vi vo uc w r
  proof -
    let ?X = "analyze md5 self t vi vo uc w"
    have "?X = (fst ?X, fst (snd ?X), snd (snd ?X))"
      by simp
    with that have "?X = (Inr r, fst (snd ?X), snd (snd ?X))"
      by simp
    from analyze_returns[OF this] dis obtain f w3 w4 where
      f: "format_transcript t = Inr f" and c3: "calls w3 = calls w"
      and rs: "run_stages self f w3 = (Inr r, w4)"
      and c4: "calls (snd (snd ?X)) = calls w4"
      by auto
    from run_stages_Inr[OF rs] obtain a report k1 k2 where
      "r = Some report" "0 < k1" "0 < k2"
      "calls w4 = calls w3 @ replicate k1 (chain_name (analyst_chain self), TranscriptInput f) @
                    replicate k2 (chain_name (synthesis_chain self), AnalysisReportInput a)"
      "respond (synthesis_chain self) (butlast (calls w4)) (AnalysisReportInput a) = Inr report"
      by blast
    with f c3 c4 ch show ?thesis
      by (intro exI[of _ f] exI[of _ a] exI[of _ report] exI[of _ k1] exI[of _ k2]) simp
  qed
  have lk: "\<forall>f uc w. cache_lookup md5 self f uc w = (Inr None, w)"
    using cache_lookup_disabled[OF dis] by simp
  have st: "\<forall>f r uc w. cache_store md5 self f r uc w = (None, self, w)"
    using cache_store_disabled[OF dis] by simp
  have same: "\<forall>t vi vo uc w. fst (snd (analyze md5 self t vi vo uc w)) = self"
    using analyze_disabled_self[OF dis] by simp
  have invalid: "\<forall>t vo uc w why.
            validate_transcript t = Inr (False, Some why)
            \<longrightarrow> fst (analyze md5 self t True vo uc w) =
                  Inl (ValueError (''Invalid transcript: '' @ why)) \<and>
                calls (snd (snd (analyze md5 self t True vo uc w))) = calls w"
    by (intro allI impI) (rule analyze_invalid_input)
  have runs': "\<forall>t vi vo uc w f.
            format_transcript t = Inr f \<and>
            (vi \<longrightarrow> (\<exists>msg. validate_transcript t = Inr (True, msg)))
            \<longrightarrow> runs_both_stages self f (calls w) (fst (analyze md5 self t vi vo uc w))
                  (calls (snd (snd (analyze md5 self t vi vo uc w))))"
    by (intro allI impI) (rule runs)
  have fresh': "\<forall>t vi vo uc w r.
            fst (analyze md5 self t vi vo uc w) = Inr r
            \<longrightarrow> (\<exists>f a report k1 k2.
                   format_transcript t = Inr f \<and> r = Some report \<and> 0 < k1 \<and> 0 < k2 \<and>
                   calls (snd (snd (analyze md5 self t vi vo uc w))) =
                     calls w @ replicate k1 (chain_name a_chain, TranscriptInput f) @
                       replicate k2 (chain_name s_chain, AnalysisReportInput a) \<and>
                   respond s_chain (butlast (calls (snd (snd (analyze md5 self t vi vo uc w)))))
                     (AnalysisReportInput a) = Inr report)"
    by (intro allI impI) (rule fresh)
  show ?thesis
    by (intro conjI none stats lk st same invalid runs' fresh')
qed

theorem cache_disabled_never_caches_witness:
  "example_pipeline False 3 =
     init (flaky_chain AnalystChain 2 no_snippets) (flaky_chain SynthesisChain 0 sparse_report)
       False 3 \<and>
   get_cache_stats (example_pipeline False 3) = Inr [(''enabled'', StatBool False)] \<and>
   validate_transcript [] = Inr (False, Some ''Transcript cannot be empty'') \<and>
   calls (snd (snd (analyze id (example_pipeline False 3) [] True True True empty_world))) = [] \<and>
   format_transcript example_request =
     Inr (''Interviewer: Q?'' @ [CHR 0x0A, CHR 0x0A] @ ''Candidate: A.'') \<and>
   validate_transcript example_request = Inr (True, None) \<and>
   fst (analyze id (example_pipeline False 3) example_request True True True empty_world) =
     Inr (Some sparse_report) \<and>
   runs_both_stages (example_pipeline False 3)
     (''Interviewer: Q?'' @ [CHR 0x0A, CHR 0x0A] @ ''Candidate: A.'') []
     (Inr (Some sparse_report))
     (replicate 3
        (AnalystChain,
         TranscriptInput (''Interviewer: Q?'' @ [CHR 0x0A, CHR 0x0A] @ ''Candidate: A.'')) @
      [(SynthesisChain, AnalysisReportInput no_snippets)]) \<and>
   fst (snd (analyze id (example_pipeline False 3) example_request True True True empty_world)) =
     example_pipeline False 3"
proof -
  let ?f = "''Interviewer: Q?'' @ [CHR 0x0A, CHR 0x0A] @ ''Candidate: A.''"
  let ?X = "analyze id (example_pipeline False 3) example_request True True True empty_world"
  have h: "example_pipeline False 3 =
             init (flaky_chain AnalystChain 2 no_snippets)
               (flaky_chain SynthesisChain 0 sparse_report) False 3"
    by (simp add: example_pipeline_def)
  have e: "validate_transcript [] = Inr (False, Some ''Transcript cannot be empty'')"
    by code_simp
  have f: "format_transcript example_request = Inr ?f"
    by code_simp
  have v: "validate_transcript example_request = Inr (True, None)"
    by code_simp
  have r: "fst ?X = Inr (Some sparse_report)"
    by code_simp
  have c: "calls (snd (snd ?X)) =
             replicate 3 (AnalystChain, TranscriptInput ?f) @
             [(SynthesisChain, AnalysisReportInput no_snippets)]"
    by code_simp
  have w: "calls empty_world = []"
    by (simp add: empty_world_def)
  note T = cache_disabled_never_caches[OF h, of id]
  note T2 = T[THEN conjunct2]
  note T5 = T2[THEN conjunct2, THEN conjunct2, THEN conjunct2]
  note T6 = T5[THEN conjunct2]
  note T7 = T6[THEN conjunct2]
  from T2 have stats: "get_cache_stats (example_pipeline False 3) =
                        Inr [(''enabled'', StatBool False)]"
    by (rule conjunct1)
  from T5[THEN conjunct1] have same: "fst (snd ?X) = example_pipeline False 3"
    by (elim allE)
  from T6[THEN conjunct1, rule_format, OF e, where vo = True and uc = True and w = empty_world] w
  have inv: "calls (snd (snd (analyze id (example_pipeline False 3) [] True True True
                                empty_world))) = []"
    by simp
  have "format_transcript example_request = Inr ?f \<and>
        (True \<longrightarrow> (\<exists>msg. validate_transcript example_request = Inr (True, msg)))"
    using f v by simp
  from T7[THEN conjunct1, rule_format, OF this, where vo = True and uc = True and w = empty_world]
  have "runs_both_stages (example_pipeline False 3) ?f (calls empty_world) (fst ?X)
          (calls (snd (snd ?X)))" .
  with r c w have runs: "runs_both_stages (example_pipeline False 3) ?f [] (Inr (Some sparse_report))
          (replicate 3 (AnalystChain, TranscriptInput ?f) @
           [(SynthesisChain, AnalysisReportInput no_snippets)])"
    by simp
  show ?thesis
    by (intro conjI h stats e inv f v r runs same)
qed
section \<open>What analyze raises\<close>

text \<open>
  C3. On the flat transcript mapping with the fields \<^verbatim>\<open>interviewer\<close>, \<^verbatim>\<open>candidate\<close> and
  \<^verbatim>\<open>transcript\<close>, \<open>analyze\<close> raises an error that is neither a validation error nor the
  failure of a stage. With \<^verbatim>\<open>validate_input\<close> false the normalizer raises
  \<^verbatim>\<open>AttributeError\<close> out of \<open>analyze\<close> although the input check is off and no stage has been
  invoked (the backend has received no call); with \<^verbatim>\<open>validate_input\<close> true the validator
  raises the same \<^verbatim>\<open>AttributeError\<close>, which is not the \<^verbatim>\<open>ValueError\<close> of a validation
  failure and which the request handler answers like a stage failure.
\<close>

theorem analyze_raises_attribute_error:
  "fst (analyze id (example_pipeline True 3)
          (flat [(''interviewer'', ''Q?''), (''candidate'', ''A.''), (''transcript'', ''notes'')])
          False True True empty_world) = Inl (no_attribute ''str'' ''keys'') \<and>
   calls (snd (snd (analyze id (example_pipeline True 3)
          (flat [(''interviewer'', ''Q?''), (''candidate'', ''A.''), (''transcript'', ''notes'')])
          False True True empty_world))) = [] \<and>
   fst (analyze id (example_pipeline True 3)
          (flat [(''interviewer'', ''Q?''), (''candidate'', ''A.''), (''transcript'', ''notes'')])
          True True True empty_world) = Inl (no_attribute ''str'' ''keys'') \<and>
   error_response (no_attribute ''str'' ''keys'') =
     HTTPException 500
       (''An unexpected error occurred: '' @ [CHR 0x27] @ ''str'' @ [CHR 0x27] @
        '' object has no attribute '' @ [CHR 0x27] @ ''keys'' @ [CHR 0x27])"
  by code_simp

text \<open>
  Where the validator and the normalizer return (a transcript object whose examined
  value is a mapping of strings), for a pipeline with \<open>max_retries \<ge> 1\<close> and with a cache
  whenever caching is enabled, \<open>analyze\<close> raises \<open>e\<close> if and only if either
  \<^verbatim>\<open>validate_input\<close> is true, the transcript fails validation with some reason, and \<open>e\<close> is
  \<^verbatim>\<open>ValueError("Invalid transcript: " + reason)\<close>, or validation is off or passed, the
  lookup finds nothing, and a stage fails with \<open>e\<close>: what the stage runner raised is
  raised unchanged. The result does not depend on \<^verbatim>\<open>validate_output\<close>: quality issues never
  raise and the report is returned all the same. The request handler answers a
  \<^verbatim>\<open>ValueError\<close> with status 400 and its message and any other exception with status 500.
\<close>

lemma analyze_raises_iff:
  assumes "unwrapped t = PDict (flat m)"
    and "1 \<le> max_retries self"
    and "enable_cache self \<longrightarrow> cache self \<noteq> None"
  shows "\<exists>b msg f.
           validate_transcript t = Inr (b, msg) \<and> format_transcript t = Inr f \<and>
           (\<forall>e. fst (analyze md5 self t vi vo uc w) = Inl e \<longleftrightarrow>
                (vi \<and> \<not> b \<and>
                 (\<exists>txt. msg = Some txt \<and> e = ValueError (''Invalid transcript: '' @ txt))) \<or>
                ((vi \<longrightarrow> b) \<and> cached_value md5 self f uc = None \<and>
                 stage_failed self f (calls w) e)) \<and>
           fst (analyze md5 self t vi True uc w) = fst (analyze md5 self t vi False uc w) \<and>
           (\<forall>req e. request_dict req = t \<and>
                    fst (analyze md5 self t True True True w) = Inl e
                  \<longrightarrow> fst (analyze_interview md5 self req w) = error_response e)"
proof -
  from validate_transcript_returns[OF assms(1)] obtain b msg where
    v: "validate_transcript t = Inr (b, msg)" and msg: "\<not> b \<longrightarrow> msg \<noteq> None"
    by blast
  from format_transcript_dict[OF assms(1)] obtain f where f: "format_transcript t = Inr f"
    by blast
  from analyze_fst_cases[OF v f assms(2,3), of w md5 vi uc] obtain w3 where
    c3: "calls w3 = calls w"
    and nf: "\<And>vo. fst (analyze md5 self t vi vo uc w) =
              (if vi \<and> \<not> b
               then Inl (ValueError (''Invalid transcript: '' @
                                     (case msg of None \<Rightarrow> ''None'' | Some txt \<Rightarrow> txt)))
               else case cached_value md5 self f uc of
                      Some r \<Rightarrow> Inr r
                    | None \<Rightarrow> fst (run_stages self f w3))"
    by blast
  have stage: "fst (run_stages self f w3) = Inl e \<longleftrightarrow> stage_failed self f (calls w) e" for e
    using run_stages_Inl_iff[OF assms(2), of f w3 e] c3 by simp
  have raises: "fst (analyze md5 self t vi vo uc w) = Inl e \<longleftrightarrow>
                (vi \<and> \<not> b \<and>
                 (\<exists>txt. msg = Some txt \<and> e = ValueError (''Invalid transcript: '' @ txt))) \<or>
                ((vi \<longrightarrow> b) \<and> cached_value md5 self f uc = None \<and>
                 stage_failed self f (calls w) e)" for e
  proof (cases "vi \<and> \<not> b")
    case True
    with msg obtain why where "msg = Some why"
      by auto
    with True nf[of vo] show ?thesis
      by auto
  next
    case False
    show ?thesis
    proof (cases "cached_value md5 self f uc")
      case None
      with False nf[of vo] stage[of e] show ?thesis
        by auto
    next
      case (Some r)
      with False nf[of vo] show ?thesis
        by auto
    qed
  qed
  have same: "fst (analyze md5 self t vi True uc w) = fst (analyze md5 self t vi False uc w)"
    by (simp only: nf)
  have boundary: "fst (analyze_interview md5 self req w) = error_response e"
    if "request_dict req = t \<and> fst (analyze md5 self t True True True w) = Inl e" for req e
  proof -
    from that obtain p' w' where
      "analyze md5 self (request_dict req) True True True w = (Inl e, p', w')"
      by (cases "analyze md5 self (request_dict req) True True True w") auto
    then show ?thesis
      by (cases e) (simp_all add: analyze_interview_def error_response_def)
  qed
  show ?thesis
    using v f raises same boundary by blast
qed

lemma analyze_raises_iff_witness:
  "unwrapped example_request = PDict (flat [(''interviewer'', ''Q?''), (''candidate'', ''A.'')]) \<and>
   1 \<le> max_retries (failing_pipeline True 2) \<and>
   cache (failing_pipeline True 2) = Some [] \<and>
   fst (analyze id (failing_pipeline True 2) example_request True True True empty_world) =
     Inl (OtherError ''boom'') \<and>
   (\<exists>f. format_transcript example_request = Inr f \<and>
        stage_failed (failing_pipeline True 2) f (calls empty_world) (OtherError ''boom''))"
proof -
  have h1: "unwrapped example_request =
              PDict (flat [(''interviewer'', ''Q?''), (''candidate'', ''A.'')])"
    by (simp add: example_request_def unwrapped_def)
  have h2: "1 \<le> max_retries (failing_pipeline True 2)"
    by (simp add: failing_pipeline_def init_def)
  have h3: "enable_cache (failing_pipeline True 2) \<longrightarrow> cache (failing_pipeline True 2) \<noteq> None"
    by (simp add: failing_pipeline_def init_def)
  have r: "fst (analyze id (failing_pipeline True 2) example_request True True True empty_world) =
             Inl (OtherError ''boom'')"
    by code_simp
  from analyze_raises_iff[OF h1 h2 h3, of id True True True empty_world] r
  have "\<exists>f. format_transcript example_request = Inr f \<and>
          stage_failed (failing_pipeline True 2) f (calls empty_world) (OtherError ''boom'')"
    by auto
  moreover have "cache (failing_pipeline True 2) = Some []"
    by (simp add: failing_pipeline_def init_def)
  ultimately show ?thesis
    using h1 h2 r by simp
qed

end
